theory Spec2Isabelle
  imports Main
begin

section \<open>Python values\<close>

text \<open>
  A Python \<open>str\<close> is a sequence of Unicode code points, so it is modelled as a list of
  natural numbers. The literals of the source are ASCII apart from the line-drawing
  glyphs of the outliner, which are given by their code points.
\<close>

type_synonym pystr = "nat list"

definition ascii :: "string \<Rightarrow> pystr" where
  "ascii s = map of_char s"

text \<open>
  The values a notebook file holds (what \<open>json.load\<close> returns): \<open>None\<close>, booleans,
  integers, strings, lists, and dictionaries with string keys. A dictionary is an
  association list in insertion order; the keys of one dictionary are distinct.
  Real-valued numbers are left out: no operation of the program computes with them.
\<close>

datatype json =
    JNull
  | JBool bool
  | JInt int
  | JStr pystr
  | JList "json list"
  | JObj "(pystr \<times> json) list"

text \<open>
  The exceptions the program can raise. \<open>Unmodelled\<close> is not a Python exception: it
  marks the inputs on which a built-in depends on the interpreter's tables of
  printable characters (\<open>str()\<close> of a list or dictionary) and the texts and objects
  that are not what the program itself produces, about which this development makes
  no statement.
\<close>

datatype error =
    KeyError
  | TypeError
  | ValueError
  | AttributeError
  | IndexError
  | FileNotFoundError
  | JSONDecodeError
  | Unmodelled

subsection \<open>Built-ins on strings\<close>

text \<open>The code points for which \<open>str.isspace\<close> holds; \<open>str.strip()\<close> removes them.\<close>

definition py_isspace :: "nat \<Rightarrow> bool" where
  "py_isspace c \<longleftrightarrow>
     (9 \<le> c \<and> c \<le> 13) \<or> (28 \<le> c \<and> c \<le> 32) \<or> c = 133 \<or> c = 160 \<or> c = 5760 \<or>
     (8192 \<le> c \<and> c \<le> 8202) \<or> c = 8232 \<or> c = 8233 \<or> c = 8239 \<or> c = 8287 \<or> c = 12288"

definition py_strip :: "pystr \<Rightarrow> pystr" where
  "py_strip s = rev (dropWhile py_isspace (rev (dropWhile py_isspace s)))"

text \<open>\<open>sep.join(xs)\<close>\<close>

fun py_join :: "pystr \<Rightarrow> pystr list \<Rightarrow> pystr" where
  "py_join sep [] = []"
| "py_join sep [x] = x"
| "py_join sep (x # y # ys) = x @ sep @ py_join sep (y # ys)"

text \<open>\<open>s.split(sep)\<close> for a separator of one character: never the empty list.\<close>

fun py_split :: "nat \<Rightarrow> pystr \<Rightarrow> pystr list" where
  "py_split sep [] = [[]]"
| "py_split sep (c # cs) =
     (if c = sep then [] # py_split sep cs
      else (case py_split sep cs of [] \<Rightarrow> [[c]] | p # ps \<Rightarrow> (c # p) # ps))"

text \<open>
  \<open>int(s)\<close> in base 10. Whitespace around the literal is skipped, but not the same
  code points as \<open>str.strip\<close> removes: of the ASCII characters only tab, line feed,
  vertical tab, form feed, carriage return (9 to 13) and space (32), not the four
  separators 28 to 31; above ASCII, every code point for which \<open>str.isspace\<close> holds.
\<close>

definition int_isspace :: "nat \<Rightarrow> bool" where
  "int_isspace c \<longleftrightarrow> (9 \<le> c \<and> c \<le> 13) \<or> c = 32 \<or> (128 \<le> c \<and> py_isspace c)"

definition int_strip :: "pystr \<Rightarrow> pystr" where
  "int_strip s = rev (dropWhile int_isspace (rev (dropWhile int_isspace s)))"

text \<open>
  A digit is a code point with a decimal value in the Unicode database: the ASCII
  digits and the digits of other scripts, which come in runs of ten from zero to
  nine. The list gives the zero of each run, in Unicode 14.0 (the tables of
  CPython 3.11); 48 is the ASCII zero.
\<close>

definition decimal_zeros :: "nat list" where
  "decimal_zeros =
     [48, 1632, 1776, 1984, 2406, 2534, 2662, 2790, 2918, 3046, 3174, 3302, 3430, 3558,
      3664, 3792, 3872, 4160, 4240, 6112, 6160, 6470, 6608, 6784, 6800, 6992, 7088, 7232,
      7248, 42528, 43216, 43264, 43472, 43504, 43600, 44016, 65296, 66720, 68912, 69734,
      69872, 69942, 70096, 70384, 70736, 70864, 71248, 71360, 71472, 71904, 72016, 72784,
      73040, 73120, 92768, 92864, 93008, 120782, 120792, 120802, 120812, 120822, 123200,
      123632, 125264, 130032]"

definition digit_value :: "nat \<Rightarrow> nat option" where
  "digit_value c = map_option (\<lambda>z. c - z) (find (\<lambda>z. z \<le> c \<and> c < z + 10) decimal_zeros)"

text \<open>
  After the whitespace, one sign is allowed (43 or 45), then digits, where single
  underscores (95) may stand between two digits. Leading zeros are accepted. Anything
  else raises \<open>ValueError\<close>. \<open>digits_loop\<close> reads the digits: \<open>acc\<close> is the value so far,
  \<open>prev\<close> tells whether the previous character was a digit. Integers are unbounded;
  the limit that an interpreter can be set to put on the number of digits that \<open>int\<close>
  and \<open>str\<close> convert is taken to be switched off.
\<close>

fun digits_loop :: "nat \<Rightarrow> bool \<Rightarrow> pystr \<Rightarrow> nat option" where
  "digits_loop acc prev [] = (if prev then Some acc else None)"
| "digits_loop acc prev (c # cs) =
     (if c = 95 then (if prev then digits_loop acc False cs else None)
      else (case digit_value c of
              None \<Rightarrow> None
            | Some d \<Rightarrow> digits_loop (10 * acc + d) True cs))"

definition py_int :: "pystr \<Rightarrow> error + int" where
  "py_int s =
     (let t = int_strip s in
      case t of
        [] \<Rightarrow> Inl ValueError
      | c # r \<Rightarrow>
          if c = 43 then
            (case digits_loop 0 False r of None \<Rightarrow> Inl ValueError | Some n \<Rightarrow> Inr (int n))
          else if c = 45 then
            (case digits_loop 0 False r of None \<Rightarrow> Inl ValueError | Some n \<Rightarrow> Inr (- int n))
          else
            (case digits_loop 0 False t of None \<Rightarrow> Inl ValueError | Some n \<Rightarrow> Inr (int n)))"

text \<open>\<open>str(i)\<close> for an integer: the decimal digits, with a minus sign when negative.\<close>

fun nat_digits :: "nat \<Rightarrow> pystr" where
  "nat_digits n = (if n < 10 then [48 + n] else nat_digits (n div 10) @ [48 + n mod 10])"

definition py_str_int :: "int \<Rightarrow> pystr" where
  "py_str_int i = (if i < 0 then 45 # nat_digits (nat (- i)) else nat_digits (nat i))"

text \<open>
  \<open>str(v)\<close>, as the f-strings of the source apply it to a value. The text of a list
  or a dictionary quotes and escapes the strings inside it by the interpreter's
  tables of printable characters, so it is \<open>Unmodelled\<close>.
\<close>

fun py_str :: "json \<Rightarrow> error + pystr" where
  "py_str JNull = Inr (ascii ''None'')"
| "py_str (JBool b) = Inr (if b then ascii ''True'' else ascii ''False'')"
| "py_str (JInt i) = Inr (py_str_int i)"
| "py_str (JStr s) = Inr s"
| "py_str (JList xs) = Inl Unmodelled"
| "py_str (JObj kvs) = Inl Unmodelled"

subsection \<open>Built-ins on containers\<close>

text \<open>\<open>v[k]\<close> with a string key: only a dictionary can be indexed by a string.\<close>

fun py_getitem :: "json \<Rightarrow> pystr \<Rightarrow> error + json" where
  "py_getitem (JObj kvs) k = (case map_of kvs k of None \<Rightarrow> Inl KeyError | Some v \<Rightarrow> Inr v)"
| "py_getitem v k = Inl TypeError"

text \<open>
  The items a \<open>for\<close> loop or a comprehension draws from a value: the elements of a
  list, the characters of a string, the keys of a dictionary.
\<close>

fun py_iter :: "json \<Rightarrow> error + json list" where
  "py_iter (JList xs) = Inr xs"
| "py_iter (JStr s) = Inr (map (\<lambda>c. JStr [c]) s)"
| "py_iter (JObj kvs) = Inr (map (\<lambda>kv. JStr (fst kv)) kvs)"
| "py_iter v = Inl TypeError"

text \<open>\<open>v.strip()\<close>: only strings have the method.\<close>

fun py_strip_method :: "json \<Rightarrow> error + pystr" where
  "py_strip_method (JStr s) = Inr (py_strip s)"
| "py_strip_method v = Inl AttributeError"

text \<open>\<open>[i.strip() for i in items]\<close>\<close>

fun strip_each :: "json list \<Rightarrow> error + pystr list" where
  "strip_each [] = Inr []"
| "strip_each (i # rest) =
     (case py_strip_method i of
        Inl e \<Rightarrow> Inl e
      | Inr s \<Rightarrow> (case strip_each rest of Inl e \<Rightarrow> Inl e | Inr ss \<Rightarrow> Inr (s # ss)))"

section \<open>Cells and notebooks\<close>

text \<open>
  The three classes of the source. An object carries its class, the attributes
  \<open>id\<close> and \<open>source\<close> that \<open>Cell.__init__\<close> sets, and \<open>execution_count\<close>, which only
  \<open>CodeCell.__init__\<close> sets: reading it from another object raises \<open>AttributeError\<close>.
\<close>

datatype cell_class = Cell | CodeCell | MarkdownCell

record cell =
  cls :: cell_class
  cell_id :: json
  source :: json
  execution_count :: "json option"

text \<open>
  \<open>Cell.__init__\<close>, run on a new object of class \<open>c\<close> whose \<open>execution_count\<close>
  attribute is \<open>ec\<close> (set before by the subclass, or absent).
\<close>

definition Cell_init :: "cell_class \<Rightarrow> json option \<Rightarrow> json \<Rightarrow> error + cell" where
  "Cell_init c ec ipynb =
     (case py_getitem ipynb (ascii ''id'') of
        Inl e \<Rightarrow> Inl e
      | Inr i \<Rightarrow>
          (case py_getitem ipynb (ascii ''source'') of
             Inl e \<Rightarrow> Inl e
           | Inr s \<Rightarrow> Inr \<lparr>cls = c, cell_id = i, source = s, execution_count = ec\<rparr>))"

definition CodeCell_init :: "json \<Rightarrow> error + cell" where
  "CodeCell_init ipynb =
     (case py_getitem ipynb (ascii ''execution_count'') of
        Inl e \<Rightarrow> Inl e
      | Inr n \<Rightarrow> Cell_init CodeCell (Some n) ipynb)"

definition MarkdownCell_init :: "json \<Rightarrow> error + cell" where
  "MarkdownCell_init ipynb = Cell_init MarkdownCell None ipynb"

record notebook =
  version :: pystr
  cells :: "cell list"

text \<open>
  Modelled from the spec: \<open>toolbox.get_format_version\<close> of the module \<open>notebook_v0\<close>,
  which is not among the sources. It combines the top-level keys \<open>nbformat\<close> and
  \<open>nbformat_minor\<close> into the string \<open><major>.<minor>\<close>.
\<close>

definition get_format_version :: "json \<Rightarrow> error + pystr" where
  "get_format_version ipynb =
     (case py_getitem ipynb (ascii ''nbformat'') of
        Inl e \<Rightarrow> Inl e
      | Inr major \<Rightarrow>
          (case py_getitem ipynb (ascii ''nbformat_minor'') of
             Inl e \<Rightarrow> Inl e
           | Inr minor \<Rightarrow>
               (case py_str major of
                  Inl e \<Rightarrow> Inl e
                | Inr a \<Rightarrow>
                    (case py_str minor of
                       Inl e \<Rightarrow> Inl e
                     | Inr b \<Rightarrow> Inr (a @ ascii ''.'' @ b)))))"

text \<open>
  The loop of \<open>Notebook.__init__\<close>: two separate \<open>if\<close> statements, each reading
  \<open>cell['cell_type']\<close>; \<open>acc\<close> is \<open>self.cells\<close>.
\<close>

fun Notebook_init_loop :: "json list \<Rightarrow> cell list \<Rightarrow> error + cell list" where
  "Notebook_init_loop [] acc = Inr acc"
| "Notebook_init_loop (entry # rest) acc =
     (case py_getitem entry (ascii ''cell_type'') of
        Inl e \<Rightarrow> Inl e
      | Inr t1 \<Rightarrow>
          (case (if t1 = JStr (ascii ''code'')
                 then (case CodeCell_init entry of Inl e \<Rightarrow> Inl e | Inr c \<Rightarrow> Inr (acc @ [c]))
                 else Inr acc) of
             Inl e \<Rightarrow> Inl e
           | Inr acc1 \<Rightarrow>
               (case py_getitem entry (ascii ''cell_type'') of
                  Inl e \<Rightarrow> Inl e
                | Inr t2 \<Rightarrow>
                    (case (if t2 = JStr (ascii ''markdown'')
                           then (case MarkdownCell_init entry of
                                   Inl e \<Rightarrow> Inl e
                                 | Inr c \<Rightarrow> Inr (acc1 @ [c]))
                           else Inr acc1) of
                       Inl e \<Rightarrow> Inl e
                     | Inr acc2 \<Rightarrow> Notebook_init_loop rest acc2))))"

definition Notebook_init :: "json \<Rightarrow> error + notebook" where
  "Notebook_init ipynb =
     (case get_format_version ipynb of
        Inl e \<Rightarrow> Inl e
      | Inr v \<Rightarrow>
          (case py_getitem ipynb (ascii ''cells'') of
             Inl e \<Rightarrow> Inl e
           | Inr raw_cells \<Rightarrow>
               (case py_iter raw_cells of
                  Inl e \<Rightarrow> Inl e
                | Inr entries \<Rightarrow>
                    (case Notebook_init_loop entries [] of
                       Inl e \<Rightarrow> Inl e
                     | Inr cs \<Rightarrow> Inr \<lparr>version = v, cells = cs\<rparr>))))"

section \<open>The JSON serializer\<close>

text \<open>\<open>d[k] = v\<close> on a dictionary: an existing key keeps its place, a new one goes last.\<close>

fun dict_set :: "(pystr \<times> 'v) list \<Rightarrow> pystr \<Rightarrow> 'v \<Rightarrow> (pystr \<times> 'v) list" where
  "dict_set [] k v = [(k, v)]"
| "dict_set (kv # kvs) k v = (if fst kv = k then (k, v) # kvs else kv # dict_set kvs k v)"

text \<open>
  The body of the loop of \<open>Serializer.serialize\<close>: the dictionary \<open>dictionnaire1\<close> of
  one cell. The loop appends it to the list \<open>s['cells']\<close>, which is \<open>acc\<close>.
\<close>

definition serialize_cell :: "cell \<Rightarrow> error + json" where
  "serialize_cell c =
     (let dictionnaire1 =
            [(ascii ''cell_type'', JInt 0), (ascii ''id'', cell_id c),
             (ascii ''metadata'', JObj []), (ascii ''source'', source c)]
      in case (if cls c = MarkdownCell then
                 Inr (dict_set dictionnaire1 (ascii ''cell_type'') (JStr (ascii ''markdown'')))
               else if cls c = CodeCell then
                 (case execution_count c of
                    None \<Rightarrow> Inl AttributeError
                  | Some n \<Rightarrow>
                      Inr (dict_set
                             (dict_set
                                (dict_set dictionnaire1 (ascii ''cell_type'') (JStr (ascii ''code'')))
                                (ascii ''execution_count'') n)
                             (ascii ''outputs'') (JList [])))
               else Inr dictionnaire1) of
           Inl e \<Rightarrow> Inl e
         | Inr d \<Rightarrow> Inr (JObj d))"

fun serialize_loop :: "cell list \<Rightarrow> json list \<Rightarrow> error + json list" where
  "serialize_loop [] acc = Inr acc"
| "serialize_loop (c # rest) acc =
     (case serialize_cell c of
        Inl e \<Rightarrow> Inl e
      | Inr d \<Rightarrow> serialize_loop rest (acc @ [d]))"

text \<open>
  \<open>n1, n2 = self.notebook.version.split('.')\<close> raises \<open>ValueError\<close> unless the split
  has exactly two parts; 46 is the code point of the full stop.
\<close>

definition serialize :: "notebook \<Rightarrow> error + json" where
  "serialize nb =
     (case py_split 46 (version nb) of
        [n1, n2] \<Rightarrow>
          (case py_int n1 of
             Inl e \<Rightarrow> Inl e
           | Inr major \<Rightarrow>
               (case py_int n2 of
                  Inl e \<Rightarrow> Inl e
                | Inr minor \<Rightarrow>
                    (case serialize_loop (cells nb) [] of
                       Inl e \<Rightarrow> Inl e
                     | Inr cs \<Rightarrow>
                         Inr (JObj [(ascii ''cells'', JList cs), (ascii ''metadata'', JObj []),
                                    (ascii ''nbformat'', JInt major),
                                    (ascii ''nbformat_minor'', JInt minor)]))))
      | _ \<Rightarrow> Inl ValueError)"

subsection \<open>Files\<close>





section \<open>The py-percent serializer\<close>

text \<open>
  The body of the loop of \<open>PyPercentSerializer.to_py_percent\<close>: the text after one more
  cell. 10 is the newline. An object that is neither a \<open>MarkdownCell\<close> nor a \<open>CodeCell\<close>
  adds nothing.
\<close>

definition to_py_percent_cell :: "cell \<Rightarrow> pystr \<Rightarrow> error + pystr" where
  "to_py_percent_cell c text =
     (if cls c = MarkdownCell then
        (case py_iter (source c) of
           Inl e \<Rightarrow> Inl e
         | Inr items \<Rightarrow>
             (case strip_each items of
                Inl e \<Rightarrow> Inl e
              | Inr ls \<Rightarrow>
                  Inr ((text @ [10] @ ascii ''# %% [markdown]'' @ [10])
                       @ ascii ''# '' @ py_join ([10] @ ascii ''# '') ls @ [10])))
      else if cls c = CodeCell then
        (case py_iter (source c) of
           Inl e \<Rightarrow> Inl e
         | Inr items \<Rightarrow>
             (case strip_each items of
                Inl e \<Rightarrow> Inl e
              | Inr ls \<Rightarrow>
                  Inr ((text @ [10] @ ascii ''# %%'' @ [10]) @ py_join [10] ls @ [10])))
      else Inr text)"

fun to_py_percent_loop :: "cell list \<Rightarrow> pystr \<Rightarrow> error + pystr" where
  "to_py_percent_loop [] text = Inr text"
| "to_py_percent_loop (c # rest) text =
     (case to_py_percent_cell c text of
        Inl e \<Rightarrow> Inl e
      | Inr text' \<Rightarrow> to_py_percent_loop rest text')"

definition to_py_percent :: "notebook \<Rightarrow> error + pystr" where
  "to_py_percent nb =
     (case to_py_percent_loop (cells nb) [] of
        Inl e \<Rightarrow> Inl e
      | Inr text \<Rightarrow> Inr (py_strip text))"

section \<open>The outliner\<close>

text \<open>\<open>len(v)\<close>\<close>

fun py_len :: "json \<Rightarrow> error + nat" where
  "py_len (JList xs) = Inr (length xs)"
| "py_len (JStr s) = Inr (length s)"
| "py_len (JObj kvs) = Inr (length kvs)"
| "py_len v = Inl TypeError"

text \<open>
  \<open>v[i]\<close> with an integer: a negative index counts from the end. The keys of a
  dictionary are strings, so an integer is never among them.
\<close>

definition list_index :: "'a list \<Rightarrow> int \<Rightarrow> error + 'a" where
  "list_index xs i =
     (if 0 \<le> i \<and> i < int (length xs) then Inr (xs ! nat i)
      else if i < 0 \<and> - i \<le> int (length xs) then Inr (xs ! nat (int (length xs) + i))
      else Inl IndexError)"

fun py_index :: "json \<Rightarrow> int \<Rightarrow> error + json" where
  "py_index (JList xs) i = list_index xs i"
| "py_index (JStr s) i = (case list_index s i of Inl e \<Rightarrow> Inl e | Inr c \<Rightarrow> Inr (JStr [c]))"
| "py_index (JObj kvs) i = Inl KeyError"
| "py_index v i = Inl TypeError"

text \<open>
  The glyphs of the source: \<open>0x250C\<close>, \<open>0x2514\<close> and \<open>0x2502\<close> are the box-drawing
  corners and bar, each followed by a space in the source's literals; the cell header
  starts with \<open>0x2514 0x2500 0x25B6\<close> and a space.
\<close>

definition glyph_first :: pystr where "glyph_first = [0x250C, 32]"
definition glyph_last :: pystr where "glyph_last = [0x2514, 32]"
definition glyph_inner :: pystr where "glyph_inner = [0x2502, 32]"
definition glyph_single :: pystr where "glyph_single = ascii ''|''"
definition glyph_cell :: pystr where "glyph_cell = [0x2514, 0x2500, 0x25B6, 32]"

text \<open>
  The inner loop of \<open>Outliner.outline\<close> over the lines of one cell; \<open>src\<close> is
  \<open>cell.source\<close>, and \<open>outline_start\<close> is the choice of \<open>start\<close> that opens its body.
  The comparison \<open>line == cell.source[0]\<close> is equality of values: where
  Python's \<open>==\<close> differs from it (\<open>1 == True\<close>, dictionaries in another order), \<open>line\<close>
  is no string and \<open>line.strip()\<close> raises in the same iteration whatever the glyph.
\<close>

definition outline_start :: "json \<Rightarrow> json \<Rightarrow> error + pystr" where
  "outline_start src line =
     (case py_len src of
        Inl e \<Rightarrow> Inl e
      | Inr n \<Rightarrow>
          if n > 1 then
            (case py_index src 0 of
               Inl e \<Rightarrow> Inl e
             | Inr first \<Rightarrow>
                 if line = first then Inr glyph_first
                 else (case py_index src (- 1) of
                         Inl e \<Rightarrow> Inl e
                       | Inr final \<Rightarrow>
                           if line = final then Inr glyph_last else Inr glyph_inner))
          else Inr glyph_single)"

fun outline_lines :: "json \<Rightarrow> json list \<Rightarrow> pystr \<Rightarrow> error + pystr" where
  "outline_lines src [] text = Inr text"
| "outline_lines src (line # rest) text =
     (case outline_start src line of
        Inl e \<Rightarrow> Inl e
      | Inr start \<Rightarrow>
          (case py_strip_method line of
             Inl e \<Rightarrow> Inl e
           | Inr stripped \<Rightarrow>
               outline_lines src rest
                 (text @ ascii ''    '' @ start @ ascii '' '' @ stripped @ [10])))"

text \<open>The header line of a cell: its kind, its id and, for a code cell, the count.\<close>

definition outline_header :: "cell \<Rightarrow> error + pystr" where
  "outline_header c =
     (case (if cls c = MarkdownCell then Inr (ascii ''Markdown'', [])
            else (case execution_count c of
                    None \<Rightarrow> Inl AttributeError
                  | Some n \<Rightarrow>
                      (case py_str n of
                         Inl e \<Rightarrow> Inl e
                       | Inr sn \<Rightarrow> Inr (ascii ''Code'', ascii '' ('' @ sn @ ascii '')'')))) of
        Inl e \<Rightarrow> Inl e
      | Inr (cell_type, count) \<Rightarrow>
          (case py_str (cell_id c) of
             Inl e \<Rightarrow> Inl e
           | Inr sid \<Rightarrow> Inr (glyph_cell @ cell_type @ ascii '' cell #'' @ sid @ count @ [10])))"

text \<open>The body of the outer loop: the text after one more cell.\<close>

definition outline_cell :: "cell \<Rightarrow> pystr \<Rightarrow> error + pystr" where
  "outline_cell c text =
     (case outline_header c of
        Inl e \<Rightarrow> Inl e
      | Inr header \<Rightarrow>
          (case py_iter (source c) of
             Inl e \<Rightarrow> Inl e
           | Inr items \<Rightarrow> outline_lines (source c) items (text @ header)))"

fun outline_loop :: "cell list \<Rightarrow> pystr \<Rightarrow> error + pystr" where
  "outline_loop [] text = Inr text"
| "outline_loop (c # rest) text =
     (case outline_cell c text of
        Inl e \<Rightarrow> Inl e
      | Inr text' \<Rightarrow> outline_loop rest text')"

text \<open>\<open>text[:-1]\<close> drops the last character.\<close>

definition outline :: "notebook \<Rightarrow> error + pystr" where
  "outline nb =
     (case outline_loop (cells nb) (ascii ''Jupyter Notebook v'' @ version nb @ [10]) of
        Inl e \<Rightarrow> Inl e
      | Inr text \<Rightarrow> Inr (butlast text))"

section \<open>The methods on a store of objects\<close>

text \<open>
  To observe what the methods do to the objects they are given, the same methods are
  run on a store. A notebook, its list of cells, each cell, the iterators, and the lists
  and dictionaries a method creates are objects at addresses; allocation appends to the
  store. The JSON values a cell holds in \<open>id\<close>, \<open>source\<close> and \<open>execution_count\<close> are
  kept as values: the methods iterate and index them, take their length and store them
  in a dictionary, and call no operation that could change them.
\<close>

type_synonym addr = nat

datatype pyval = Imm json | Ref addr

datatype pyobj =
    ONotebook pystr pyval
  | OCell cell
  | OList "pyval list"
  | ODict "(pystr \<times> pyval) list"
  | OIter addr nat

type_synonym heap = "pyobj list"

definition heap_get :: "heap \<Rightarrow> addr \<Rightarrow> pyobj option" where
  "heap_get h a = (if a < length h then Some (h ! a) else None)"

definition alloc :: "heap \<Rightarrow> pyobj \<Rightarrow> addr \<times> heap" where
  "alloc h obj = (length h, h @ [obj])"

text \<open>The cell object an item of the cell list refers to, if it is one.\<close>

definition the_cell :: "heap \<Rightarrow> pyval \<Rightarrow> cell option" where
  "the_cell h item =
     (case item of
        Imm j \<Rightarrow> None
      | Ref a \<Rightarrow> (case heap_get h a of Some (OCell c) \<Rightarrow> Some c | _ \<Rightarrow> None))"

text \<open>
  \<open>Notebook.__iter__\<close>: \<open>iter(self.cells)\<close> is a new list iterator, an object holding
  the list and the index of the next item. The method is that of a notebook whose
  \<open>cells\<close> is the list that \<open>__init__\<close> created; on any other object it is \<open>Unmodelled\<close>,
  as are the methods below.
\<close>

definition Notebook_iter :: "heap \<Rightarrow> addr \<Rightarrow> (error + addr) \<times> heap" where
  "Notebook_iter h self =
     (case heap_get h self of
        Some (ONotebook v (Ref l)) \<Rightarrow>
          (case heap_get h l of
             Some (OList items) \<Rightarrow> (case alloc h (OIter l 0) of (it, h') \<Rightarrow> (Inr it, h'))
           | _ \<Rightarrow> (Inl Unmodelled, h))
      | _ \<Rightarrow> (Inl Unmodelled, h))"

text \<open>
  \<open>next(it)\<close>: the item at the index in the list as it is now, advancing the iterator;
  \<open>None\<close> stands for \<open>StopIteration\<close>. Only the iterators that \<open>Notebook_iter\<close> creates
  are passed to it.
\<close>

definition iter_next :: "heap \<Rightarrow> addr \<Rightarrow> pyval option \<times> heap" where
  "iter_next h it =
     (case heap_get h it of
        Some (OIter l i) \<Rightarrow>
          (case heap_get h l of
             Some (OList items) \<Rightarrow>
               if i < length items then (Some (items ! i), h[it := OIter l (Suc i)])
               else (None, h)
           | _ \<Rightarrow> (None, h))
      | _ \<Rightarrow> (None, h))"

text \<open>
  A \<open>for\<close> loop over an iterator. Its body gets the item, the local variables and the
  store. A body that kept appending to the list would never let the loop end, so the
  loop is given fuel, and \<open>None\<close> says that the fuel ran out.
\<close>

fun for_loop ::
  "nat \<Rightarrow> (pyval \<Rightarrow> 's \<Rightarrow> heap \<Rightarrow> (error + 's) \<times> heap) \<Rightarrow> addr \<Rightarrow> 's \<Rightarrow> heap \<Rightarrow>
   ((error + 's) \<times> heap) option" where
  "for_loop 0 body it s h = None"
| "for_loop (Suc fuel) body it s h =
     (case iter_next h it of
        (None, h1) \<Rightarrow> Some (Inr s, h1)
      | (Some item, h1) \<Rightarrow>
          (case body item s h1 of
             (Inl e, h2) \<Rightarrow> Some (Inl e, h2)
           | (Inr s', h2) \<Rightarrow> for_loop fuel body it s' h2))"

text \<open>\<open>for cell in self.notebook: body\<close>\<close>

definition for_notebook ::
  "nat \<Rightarrow> (pyval \<Rightarrow> 's \<Rightarrow> heap \<Rightarrow> (error + 's) \<times> heap) \<Rightarrow> addr \<Rightarrow> 's \<Rightarrow> heap \<Rightarrow>
   ((error + 's) \<times> heap) option" where
  "for_notebook fuel body self s h =
     (case Notebook_iter h self of
        (Inl e, h1) \<Rightarrow> Some (Inl e, h1)
      | (Inr it, h1) \<Rightarrow> for_loop fuel body it s h1)"

text \<open>Iterating the notebook to the end, collecting the items.\<close>

definition collect :: "pyval \<Rightarrow> pyval list \<Rightarrow> heap \<Rightarrow> (error + pyval list) \<times> heap" where
  "collect item seen h = (Inr (seen @ [item]), h)"

definition iterate :: "nat \<Rightarrow> heap \<Rightarrow> addr \<Rightarrow> ((error + pyval list) \<times> heap) option" where
  "iterate fuel h self = for_notebook fuel collect self [] h"

subsection \<open>The py-percent serializer and the outliner\<close>

text \<open>
  The bodies of their loops read the cell and extend the local string \<open>text\<close>; strings
  are immutable, so they write nothing to the store. An item that is no cell object is
  skipped by the \<open>isinstance\<close> tests of \<open>to_py_percent\<close>, and has no \<open>execution_count\<close>
  for \<open>outline\<close> to read.
\<close>

definition to_py_percent_body :: "pyval \<Rightarrow> pystr \<Rightarrow> heap \<Rightarrow> (error + pystr) \<times> heap" where
  "to_py_percent_body item text h =
     (case the_cell h item of
        None \<Rightarrow> (Inr text, h)
      | Some c \<Rightarrow> (to_py_percent_cell c text, h))"

definition to_py_percent_on :: "nat \<Rightarrow> heap \<Rightarrow> addr \<Rightarrow> ((error + pystr) \<times> heap) option" where
  "to_py_percent_on fuel h self =
     (case for_notebook fuel to_py_percent_body self [] h of
        None \<Rightarrow> None
      | Some (Inl e, h') \<Rightarrow> Some (Inl e, h')
      | Some (Inr text, h') \<Rightarrow> Some (Inr (py_strip text), h'))"

definition outline_body :: "pyval \<Rightarrow> pystr \<Rightarrow> heap \<Rightarrow> (error + pystr) \<times> heap" where
  "outline_body item text h =
     (case the_cell h item of
        None \<Rightarrow> (Inl AttributeError, h)
      | Some c \<Rightarrow> (outline_cell c text, h))"

definition outline_on :: "nat \<Rightarrow> heap \<Rightarrow> addr \<Rightarrow> ((error + pystr) \<times> heap) option" where
  "outline_on fuel h self =
     (case heap_get h self of
        Some (ONotebook v cs) \<Rightarrow>
          (case for_notebook fuel outline_body self (ascii ''Jupyter Notebook v'' @ v @ [10]) h of
             None \<Rightarrow> None
           | Some (Inl e, h') \<Rightarrow> Some (Inl e, h')
           | Some (Inr text, h') \<Rightarrow> Some (Inr (butlast text), h'))
      | _ \<Rightarrow> Some (Inl Unmodelled, h))"

subsection \<open>The JSON serializer\<close>

text \<open>\<open>d[k] = v\<close> and \<open>l.append(v)\<close> on objects of the store.\<close>

definition dict_setitem :: "heap \<Rightarrow> addr \<Rightarrow> pystr \<Rightarrow> pyval \<Rightarrow> heap" where
  "dict_setitem h d k v =
     (case heap_get h d of
        Some (ODict kvs) \<Rightarrow> h[d := ODict (dict_set kvs k v)]
      | _ \<Rightarrow> h)"

definition list_append :: "heap \<Rightarrow> addr \<Rightarrow> pyval \<Rightarrow> heap" where
  "list_append h l v =
     (case heap_get h l of
        Some (OList items) \<Rightarrow> h[l := OList (items @ [v])]
      | _ \<Rightarrow> h)"

text \<open>
  The body of the loop of \<open>serialize\<close>: it creates the dictionary \<open>dictionnaire1\<close> with a
  new empty \<open>metadata\<close> dictionary, assigns its \<open>cell_type\<close> (and, for a code cell,
  \<open>execution_count\<close> and a new empty \<open>outputs\<close> list) and appends it to the list
  \<open>s['cells']\<close>. The local variable \<open>s\<close> is the address of the result.
\<close>

definition serialize_fill :: "cell \<Rightarrow> addr \<Rightarrow> heap \<Rightarrow> (error + unit) \<times> heap" where
  "serialize_fill c d h =
     (if cls c = MarkdownCell then
        (Inr (), dict_setitem h d (ascii ''cell_type'') (Imm (JStr (ascii ''markdown''))))
      else if cls c = CodeCell then
        (case execution_count c of
           None \<Rightarrow>
             (Inl AttributeError, dict_setitem h d (ascii ''cell_type'') (Imm (JStr (ascii ''code''))))
         | Some n \<Rightarrow>
             (case alloc
                     (dict_setitem
                        (dict_setitem h d (ascii ''cell_type'') (Imm (JStr (ascii ''code''))))
                        d (ascii ''execution_count'') (Imm n))
                     (OList []) of
                (outputs, h') \<Rightarrow>
                  (Inr (), dict_setitem h' d (ascii ''outputs'') (Ref outputs))))
      else (Inr (), h))"

definition serialize_body :: "pyval \<Rightarrow> addr \<Rightarrow> heap \<Rightarrow> (error + addr) \<times> heap" where
  "serialize_body item s h =
     (case the_cell h item of
        None \<Rightarrow> (Inl AttributeError, h)
      | Some c \<Rightarrow>
          (case alloc h (ODict []) of
             (metadata, h1) \<Rightarrow>
               (case alloc h1
                       (ODict [(ascii ''cell_type'', Imm (JInt 0)), (ascii ''id'', Imm (cell_id c)),
                               (ascii ''metadata'', Ref metadata),
                               (ascii ''source'', Imm (source c))]) of
                  (dictionnaire1, h2) \<Rightarrow>
                    (case serialize_fill c dictionnaire1 h2 of
                       (Inl e, h3) \<Rightarrow> (Inl e, h3)
                     | (Inr u, h3) \<Rightarrow>
                         (case heap_get h3 s of
                            Some (ODict kvs) \<Rightarrow>
                              (case map_of kvs (ascii ''cells'') of
                                 Some (Ref l) \<Rightarrow> (Inr s, list_append h3 l (Ref dictionnaire1))
                               | _ \<Rightarrow> (Inl KeyError, h3))
                          | _ \<Rightarrow> (Inl TypeError, h3))))))"

definition serialize_on :: "nat \<Rightarrow> heap \<Rightarrow> addr \<Rightarrow> ((error + pyval) \<times> heap) option" where
  "serialize_on fuel h self =
     (case heap_get h self of
        Some (ONotebook v cs) \<Rightarrow>
          (case py_split 46 v of
             [n1, n2] \<Rightarrow>
               (case py_int n1 of
                  Inl e \<Rightarrow> Some (Inl e, h)
                | Inr major \<Rightarrow>
                    (case py_int n2 of
                       Inl e \<Rightarrow> Some (Inl e, h)
                     | Inr minor \<Rightarrow>
                         (case alloc h (OList []) of
                            (l, h1) \<Rightarrow>
                              (case alloc h1 (ODict []) of
                                 (metadata, h2) \<Rightarrow>
                                   (case alloc h2
                                           (ODict [(ascii ''cells'', Ref l),
                                                   (ascii ''metadata'', Ref metadata),
                                                   (ascii ''nbformat'', Imm (JInt major)),
                                                   (ascii ''nbformat_minor'', Imm (JInt minor))]) of
                                      (s, h3) \<Rightarrow>
                                        (case for_notebook fuel serialize_body self s h3 of
                                           None \<Rightarrow> None
                                         | Some (Inl e, h') \<Rightarrow> Some (Inl e, h')
                                         | Some (Inr s', h') \<Rightarrow> Some (Inr (Ref s'), h')))))))
           | _ \<Rightarrow> Some (Inl ValueError, h))
      | _ \<Rightarrow> Some (Inl Unmodelled, h))"

subsection \<open>Reading the store\<close>

text \<open>
  The notebook that the objects at an address make up, and the JSON value that a value
  of the store stands for, followed through at most \<open>depth\<close> references.
\<close>

definition read_notebook :: "heap \<Rightarrow> addr \<Rightarrow> notebook option" where
  "read_notebook h self =
     (case heap_get h self of
        Some (ONotebook v (Ref l)) \<Rightarrow>
          (case heap_get h l of
             Some (OList items) \<Rightarrow>
               if list_all (\<lambda>item. the_cell h item \<noteq> None) items
               then Some \<lparr>version = v, cells = map (\<lambda>item. the (the_cell h item)) items\<rparr>
               else None
           | _ \<Rightarrow> None)
      | _ \<Rightarrow> None)"

fun those_pairs :: "('k \<times> 'v option) list \<Rightarrow> ('k \<times> 'v) list option" where
  "those_pairs [] = Some []"
| "those_pairs ((k, x) # rest) =
     (case x of
        None \<Rightarrow> None
      | Some v \<Rightarrow> (case those_pairs rest of None \<Rightarrow> None | Some kvs \<Rightarrow> Some ((k, v) # kvs)))"

fun read_json :: "nat \<Rightarrow> heap \<Rightarrow> pyval \<Rightarrow> json option" where
  "read_json depth h (Imm j) = Some j"
| "read_json 0 h (Ref a) = None"
| "read_json (Suc depth) h (Ref a) =
     (case heap_get h a of
        Some (OList items) \<Rightarrow> map_option JList (those (map (read_json depth h) items))
      | Some (ODict kvs) \<Rightarrow>
          map_option JObj (those_pairs (map (\<lambda>kv. (fst kv, read_json depth h (snd kv))) kvs))
      | _ \<Rightarrow> None)"

text \<open>
  The dictionary that \<open>serialize\<close> builds for a cell, as it lies in the store at the
  address \<open>d\<close>: its \<open>metadata\<close> is a new empty dictionary and, for a code cell, its
  \<open>outputs\<close> a new empty list, all at addresses above \<open>b\<close>.
\<close>

definition entry_at :: "heap \<Rightarrow> addr \<Rightarrow> addr \<Rightarrow> cell \<Rightarrow> bool" where
  "entry_at h b d c \<longleftrightarrow>
     b < d \<and>
     (\<exists>m. b < m \<and> heap_get h m = Some (ODict []) \<and>
        (if cls c = MarkdownCell then
           heap_get h d =
             Some (ODict [(ascii ''cell_type'', Imm (JStr (ascii ''markdown''))),
                          (ascii ''id'', Imm (cell_id c)), (ascii ''metadata'', Ref m),
                          (ascii ''source'', Imm (source c))])
         else if cls c = CodeCell then
           (\<exists>n outputs. execution_count c = Some n \<and> b < outputs \<and>
              heap_get h outputs = Some (OList []) \<and>
              heap_get h d =
                Some (ODict [(ascii ''cell_type'', Imm (JStr (ascii ''code''))),
                             (ascii ''id'', Imm (cell_id c)), (ascii ''metadata'', Ref m),
                             (ascii ''source'', Imm (source c)),
                             (ascii ''execution_count'', Imm n),
                             (ascii ''outputs'', Ref outputs)]))
         else
           heap_get h d =
             Some (ODict [(ascii ''cell_type'', Imm (JInt 0)),
                          (ascii ''id'', Imm (cell_id c)), (ascii ''metadata'', Ref m),
                          (ascii ''source'', Imm (source c))])))"

text \<open>
  What a loop computes when its body has the pure meaning \<open>g\<close>: the body applied to the
  items in turn, stopping at the first error.
\<close>

fun run :: "('a \<Rightarrow> 's \<Rightarrow> error + 's) \<Rightarrow> 'a list \<Rightarrow> 's \<Rightarrow> error + 's" where
  "run g [] s = Inr s"
| "run g (x # xs) s = (case g x s of Inl e \<Rightarrow> Inl e | Inr s' \<Rightarrow> run g xs s')"

text \<open>A later store keeps every object of an earlier one.\<close>

definition keeps :: "heap \<Rightarrow> heap \<Rightarrow> bool" where
  "keeps h h' \<longleftrightarrow> take (length h) h' = h"

section \<open>Notions of the specification\<close>

subsection \<open>Raw cell entries\<close>

text \<open>
  What the specification says of an entry of the raw cell list: which keys it has,
  whether its \<open>cell_type\<close> is one of the two recognized ones, and the cell it stands for.
\<close>

definition has_key :: "json \<Rightarrow> pystr \<Rightarrow> bool" where
  "has_key entry k = (case py_getitem entry k of Inl e \<Rightarrow> False | Inr v \<Rightarrow> True)"

definition field :: "json \<Rightarrow> pystr \<Rightarrow> json" where
  "field entry k = (case py_getitem entry k of Inl e \<Rightarrow> JNull | Inr v \<Rightarrow> v)"

definition is_code :: "json \<Rightarrow> bool" where
  "is_code entry \<longleftrightarrow> py_getitem entry (ascii ''cell_type'') = Inr (JStr (ascii ''code''))"

definition is_markdown :: "json \<Rightarrow> bool" where
  "is_markdown entry \<longleftrightarrow> py_getitem entry (ascii ''cell_type'') = Inr (JStr (ascii ''markdown''))"

definition recognized :: "json \<Rightarrow> bool" where
  "recognized entry \<longleftrightarrow> is_code entry \<or> is_markdown entry"

definition cell_of :: "json \<Rightarrow> cell" where
  "cell_of entry =
     \<lparr>cls = (if is_code entry then CodeCell else MarkdownCell),
      cell_id = field entry (ascii ''id''),
      source = field entry (ascii ''source''),
      execution_count =
        (if is_code entry then Some (field entry (ascii ''execution_count'')) else None)\<rparr>"

text \<open>
  A well-formed entry is a dictionary with a \<open>cell_type\<close>; a recognized one has the
  keys its cell class requires.
\<close>

definition wf_entry :: "json \<Rightarrow> bool" where
  "wf_entry entry \<longleftrightarrow>
     has_key entry (ascii ''cell_type'') \<and>
     (recognized entry \<longrightarrow> has_key entry (ascii ''id'') \<and> has_key entry (ascii ''source'')) \<and>
     (is_code entry \<longrightarrow> has_key entry (ascii ''execution_count''))"

text \<open>
  The exception that an entry raises when it is not well formed: a dictionary lacks a
  key that is read (\<open>KeyError\<close>); any other value cannot be indexed by a string
  (\<open>TypeError\<close>).
\<close>

fun entry_error :: "json \<Rightarrow> error" where
  "entry_error (JObj kvs) = KeyError"
| "entry_error v = TypeError"

subsection \<open>Examples\<close>

text \<open>
  The notebook of the doctests (\<open>samples/hello-world.ipynb\<close>, its last cell without
  the emoji), with an entry of an unrecognized type added.
\<close>

definition hello_markdown :: json where
  "hello_markdown =
     JObj [(ascii ''cell_type'', JStr (ascii ''markdown'')),
           (ascii ''id'', JStr (ascii ''a9541506'')),
           (ascii ''metadata'', JObj []),
           (ascii ''source'',
            JList [JStr (ascii ''Hello world!'' @ [10]), JStr (ascii ''============'' @ [10]),
                   JStr (ascii ''Print `Hello world!`:'')])]"

text \<open>The line \<open>print("Hello world!")\<close>; 34 is the double quote.\<close>

definition hello_print :: pystr where
  "hello_print = ascii ''print('' @ [34] @ ascii ''Hello world!'' @ [34] @ ascii '')''"

definition hello_code :: json where
  "hello_code =
     JObj [(ascii ''cell_type'', JStr (ascii ''code'')),
           (ascii ''execution_count'', JInt 1),
           (ascii ''id'', JStr (ascii ''b777420a'')),
           (ascii ''metadata'', JObj []),
           (ascii ''outputs'', JList []),
           (ascii ''source'', JList [JStr hello_print])]"

definition hello_raw :: json where
  "hello_raw =
     JObj [(ascii ''cell_type'', JStr (ascii ''raw'')),
           (ascii ''metadata'', JObj [])]"

definition goodbye_markdown :: json where
  "goodbye_markdown =
     JObj [(ascii ''cell_type'', JStr (ascii ''markdown'')),
           (ascii ''id'', JStr (ascii ''a23ab5ac'')),
           (ascii ''metadata'', JObj []),
           (ascii ''source'', JList [JStr (ascii ''Goodbye!'')])]"

definition hello_ipynb :: json where
  "hello_ipynb =
     JObj [(ascii ''cells'', JList [hello_markdown, hello_code, hello_raw, goodbye_markdown]),
           (ascii ''metadata'', JObj []),
           (ascii ''nbformat'', JInt 4),
           (ascii ''nbformat_minor'', JInt 5)]"

text \<open>The same notebook with an entry that has no \<open>cell_type\<close> in the place of the raw one.\<close>

definition untyped_entry :: json where
  "untyped_entry =
     JObj [(ascii ''id'', JStr (ascii ''c0ffee00'')),
           (ascii ''metadata'', JObj []),
           (ascii ''source'', JList [])]"

definition untyped_ipynb :: json where
  "untyped_ipynb =
     JObj [(ascii ''cells'', JList [hello_markdown, hello_code, untyped_entry, goodbye_markdown]),
           (ascii ''metadata'', JObj []),
           (ascii ''nbformat'', JInt 4),
           (ascii ''nbformat_minor'', JInt 5)]"

subsection \<open>Version strings\<close>

text \<open>
  The specification's reading of a version: exactly one full stop (code point 46), and
  two halves that are numeric, that is, non-empty strings of the digits 0 to 9.
\<close>

definition is_digit :: "nat \<Rightarrow> bool" where
  "is_digit c \<longleftrightarrow> 48 \<le> c \<and> c \<le> 57"

definition numeric :: "pystr \<Rightarrow> bool" where
  "numeric s \<longleftrightarrow> s \<noteq> [] \<and> list_all is_digit s"

definition decimal_value :: "pystr \<Rightarrow> nat" where
  "decimal_value s = foldl (\<lambda>a c. 10 * a + (c - 48)) 0 s"

definition major_part :: "pystr \<Rightarrow> pystr" where
  "major_part v = takeWhile (\<lambda>c. c \<noteq> 46) v"

definition minor_part :: "pystr \<Rightarrow> pystr" where
  "minor_part v = drop 1 (dropWhile (\<lambda>c. c \<noteq> 46) v)"

definition spec_malformed_version :: "pystr \<Rightarrow> bool" where
  "spec_malformed_version v \<longleftrightarrow>
     count_list v 46 \<noteq> 1 \<or> \<not> numeric (major_part v) \<or> \<not> numeric (minor_part v)"

text \<open>
  What \<open>int\<close> accepts: after the whitespace around it and one leading sign (43 or 45)
  are taken away, groups of digits separated by single underscores (95), each group
  with at least one digit.
\<close>

definition int_digit :: "nat \<Rightarrow> bool" where
  "int_digit c \<longleftrightarrow> list_ex (\<lambda>z. z \<le> c \<and> c < z + 10) decimal_zeros"

definition int_literal :: "pystr \<Rightarrow> bool" where
  "int_literal s \<longleftrightarrow>
     (let t = int_strip s;
          body = (case t of [] \<Rightarrow> [] | c # r \<Rightarrow> if c = 43 \<or> c = 45 then r else t)
      in list_all (\<lambda>g. g \<noteq> [] \<and> list_all int_digit g) (py_split 95 body))"

subsection \<open>Cells as the constructors build them\<close>

definition built_cell :: "cell \<Rightarrow> bool" where
  "built_cell c \<longleftrightarrow> cls c = MarkdownCell \<or> (cls c = CodeCell \<and> execution_count c \<noteq> None)"

text \<open>
  The notebook that \<open>Notebook.__init__\<close> builds from the example, and what
  \<open>Serializer.serialize\<close> returns for it.
\<close>

definition hello_cell :: cell where
  "hello_cell =
     \<lparr>cls = MarkdownCell, cell_id = JStr (ascii ''a9541506''),
      source = JList [JStr (ascii ''Hello world!'' @ [10]), JStr (ascii ''============'' @ [10]),
                      JStr (ascii ''Print `Hello world!`:'')],
      execution_count = None\<rparr>"

definition print_cell :: cell where
  "print_cell =
     \<lparr>cls = CodeCell, cell_id = JStr (ascii ''b777420a''),
      source = JList [JStr hello_print], execution_count = Some (JInt 1)\<rparr>"

definition goodbye_cell :: cell where
  "goodbye_cell =
     \<lparr>cls = MarkdownCell, cell_id = JStr (ascii ''a23ab5ac''),
      source = JList [JStr (ascii ''Goodbye!'')], execution_count = None\<rparr>"

definition hello_nb :: notebook where
  "hello_nb = \<lparr>version = ascii ''4.5'', cells = [hello_cell, print_cell, goodbye_cell]\<rparr>"

definition hello_serialized :: json where
  "hello_serialized =
     JObj [(ascii ''cells'',
            JList [JObj [(ascii ''cell_type'', JStr (ascii ''markdown'')),
                         (ascii ''id'', JStr (ascii ''a9541506'')),
                         (ascii ''metadata'', JObj []),
                         (ascii ''source'',
                          JList [JStr (ascii ''Hello world!'' @ [10]),
                                 JStr (ascii ''============'' @ [10]),
                                 JStr (ascii ''Print `Hello world!`:'')])],
                   JObj [(ascii ''cell_type'', JStr (ascii ''code'')),
                         (ascii ''id'', JStr (ascii ''b777420a'')),
                         (ascii ''metadata'', JObj []),
                         (ascii ''source'', JList [JStr hello_print]),
                         (ascii ''execution_count'', JInt 1),
                         (ascii ''outputs'', JList [])],
                   JObj [(ascii ''cell_type'', JStr (ascii ''markdown'')),
                         (ascii ''id'', JStr (ascii ''a23ab5ac'')),
                         (ascii ''metadata'', JObj []),
                         (ascii ''source'', JList [JStr (ascii ''Goodbye!'')])]]),
           (ascii ''metadata'', JObj []),
           (ascii ''nbformat'', JInt 4),
           (ascii ''nbformat_minor'', JInt 5)]"

subsection \<open>Serialized cell entries\<close>

text \<open>An entry whose \<open>cell_type\<close> is one of the two strings, not the placeholder 0.\<close>

definition typed_entry :: "json \<Rightarrow> bool" where
  "typed_entry e \<longleftrightarrow>
     py_getitem e (ascii ''cell_type'') = Inr (JStr (ascii ''markdown'')) \<or>
     py_getitem e (ascii ''cell_type'') = Inr (JStr (ascii ''code''))"

subsection \<open>Outline glyphs\<close>




subsection \<open>Py-percent blocks\<close>

text \<open>
  The text of one cell as the specification words it: a blank separator line, the
  marker line, then each source line stripped, prefixed for a markdown cell, on a line
  of its own.
\<close>

definition source_lines :: "json \<Rightarrow> pystr list" where
  "source_lines src =
     (case src of
        JList xs \<Rightarrow> map (\<lambda>x. case x of JStr s \<Rightarrow> s | _ \<Rightarrow> []) xs
      | _ \<Rightarrow> [])"

definition spec_marker :: "cell \<Rightarrow> pystr" where
  "spec_marker c = (if cls c = MarkdownCell then ascii ''# %% [markdown]'' else ascii ''# %%'')"

definition spec_prefix :: "cell \<Rightarrow> pystr" where
  "spec_prefix c = (if cls c = MarkdownCell then ascii ''# '' else [])"

definition spec_block :: "cell \<Rightarrow> pystr" where
  "spec_block c =
     [10] @ spec_marker c @ [10] @
     concat (map (\<lambda>l. spec_prefix c @ py_strip l @ [10]) (source_lines (source c)))"

text \<open>A markdown or code cell whose source is a list of strings with at least one line.\<close>

definition renderable :: "cell \<Rightarrow> bool" where
  "renderable c \<longleftrightarrow>
     (cls c = MarkdownCell \<or> cls c = CodeCell) \<and>
     source c = JList (map JStr (source_lines (source c))) \<and>
     source_lines (source c) \<noteq> []"

text \<open>Cells without source lines.\<close>

definition empty_markdown :: cell where
  "empty_markdown =
     \<lparr>cls = MarkdownCell, cell_id = JStr (ascii ''m0''), source = JList [],
      execution_count = None\<rparr>"

definition empty_code :: cell where
  "empty_code =
     \<lparr>cls = CodeCell, cell_id = JStr (ascii ''c0''), source = JList [],
      execution_count = Some JNull\<rparr>"

text \<open>The py-percent text of the doctest of \<open>PyPercentSerializer\<close>.\<close>

definition hello_percent :: pystr where
  "hello_percent =
     ascii ''# %% [markdown]'' @ [10] @ ascii ''# Hello world!'' @ [10] @
     ascii ''# ============'' @ [10] @ ascii ''# Print `Hello world!`:'' @ [10] @ [10] @
     ascii ''# %%'' @ [10] @ hello_print @ [10] @ [10] @
     ascii ''# %% [markdown]'' @ [10] @ ascii ''# Goodbye!''"

subsection \<open>Round trip\<close>



subsection \<open>The example notebook in a store\<close>

text \<open>The three cells at the addresses 0 to 2, their list at 3 and the notebook at 4.\<close>

definition hello_heap :: heap where
  "hello_heap =
     [OCell hello_cell, OCell print_cell, OCell goodbye_cell,
      OList [Ref 0, Ref 1, Ref 2], ONotebook (ascii ''4.5'') (Ref 3)]"

section \<open>Properties\<close>

declare nat_digits.simps [simp del]

lemma ascii_eq_iff [simp]: "ascii s = ascii t \<longleftrightarrow> s = t"
  unfolding ascii_def by (simp add: inj_map_eq_map inj_of_char)

lemma ascii_Nil [simp]: "ascii [] = []"
  by (simp add: ascii_def)

subsection \<open>Construction of cells\<close>

text \<open>
  Claim C8. Constructing a cell from a dictionary fails with \<open>KeyError\<close> when a required
  key is absent: \<open>id\<close> and \<open>source\<close> for every cell class, and \<open>execution_count\<close> as well
  for a code cell.
\<close>

theorem cell_init_missing_key:
  "(map_of kvs (ascii ''id'') = None \<or> map_of kvs (ascii ''source'') = None \<longrightarrow>
      Cell_init c ec (JObj kvs) = Inl KeyError \<and>
      MarkdownCell_init (JObj kvs) = Inl KeyError \<and>
      CodeCell_init (JObj kvs) = Inl KeyError) \<and>
   (map_of kvs (ascii ''execution_count'') = None \<longrightarrow> CodeCell_init (JObj kvs) = Inl KeyError)"
  by (auto simp: Cell_init_def MarkdownCell_init_def CodeCell_init_def split: option.splits)

theorem cell_init_missing_key_witness:
  "map_of [(ascii ''cell_type'', JStr (ascii ''code''))] (ascii ''id'') = None \<and>
   map_of [(ascii ''cell_type'', JStr (ascii ''code''))] (ascii ''execution_count'') = None \<and>
   Cell_init Cell None (JObj [(ascii ''cell_type'', JStr (ascii ''code''))]) = Inl KeyError \<and>
   MarkdownCell_init (JObj [(ascii ''cell_type'', JStr (ascii ''code''))]) = Inl KeyError \<and>
   CodeCell_init (JObj [(ascii ''cell_type'', JStr (ascii ''code''))]) = Inl KeyError"
  using cell_init_missing_key [of "[(ascii ''cell_type'', JStr (ascii ''code''))]" Cell None]
  by simp

subsection \<open>Construction of notebooks\<close>

lemma Notebook_init_loop_wf_step:
  assumes wf: "wf_entry entry"
  shows "Notebook_init_loop (entry # rest) acc =
         Notebook_init_loop rest (acc @ map cell_of (filter recognized [entry]))"
proof -
  obtain t where t: "py_getitem entry (ascii ''cell_type'') = Inr t"
    using wf by (auto simp: wf_entry_def has_key_def split: sum.splits)
  show ?thesis
  proof (cases "t = JStr (ascii ''code'')")
    case True
    then have code: "is_code entry" and nmd: "\<not> is_markdown entry"
      using t by (simp_all add: is_code_def is_markdown_def)
    with wf obtain i s n where
      "py_getitem entry (ascii ''id'') = Inr i"
      "py_getitem entry (ascii ''source'') = Inr s"
      "py_getitem entry (ascii ''execution_count'') = Inr n"
      by (auto simp: wf_entry_def recognized_def has_key_def split: sum.splits)
    then have "CodeCell_init entry = Inr (cell_of entry)"
      using code by (simp add: CodeCell_init_def Cell_init_def cell_of_def field_def)
    then show ?thesis
      using t True code nmd by (simp add: recognized_def)
  next
    case False
    then have ncode: "\<not> is_code entry" using t by (simp add: is_code_def)
    show ?thesis
    proof (cases "t = JStr (ascii ''markdown'')")
      case True
      then have md: "is_markdown entry" using t by (simp add: is_markdown_def)
      with wf obtain i s where
        "py_getitem entry (ascii ''id'') = Inr i"
        "py_getitem entry (ascii ''source'') = Inr s"
        by (auto simp: wf_entry_def recognized_def has_key_def split: sum.splits)
      then have "MarkdownCell_init entry = Inr (cell_of entry)"
        using ncode by (simp add: MarkdownCell_init_def Cell_init_def cell_of_def field_def)
      then show ?thesis
        using t True False md ncode by (simp add: recognized_def)
    next
      case nmd: False
      then have "\<not> is_markdown entry" using t by (simp add: is_markdown_def)
      then show ?thesis
        using t False nmd ncode by (simp add: recognized_def)
    qed
  qed
qed

lemma Notebook_init_loop_prefix:
  "\<forall>e \<in> set pre. wf_entry e \<Longrightarrow>
   Notebook_init_loop (pre @ rest) acc =
   Notebook_init_loop rest (acc @ map cell_of (filter recognized pre))"
proof (induction pre arbitrary: acc)
  case Nil
  then show ?case by simp
next
  case (Cons entry pre)
  from Cons.prems have wf: "wf_entry entry" and p: "\<forall>e \<in> set pre. wf_entry e"
    by simp_all
  have "Notebook_init_loop ((entry # pre) @ rest) acc =
        Notebook_init_loop (pre @ rest) (acc @ map cell_of (filter recognized [entry]))"
    using Notebook_init_loop_wf_step [OF wf, of "pre @ rest" acc] by simp
  also have "\<dots> = Notebook_init_loop rest
      ((acc @ map cell_of (filter recognized [entry])) @ map cell_of (filter recognized pre))"
    by (rule Cons.IH [OF p])
  finally show ?case by simp
qed

lemma Notebook_init_loop_wf:
  "\<forall>e \<in> set entries. wf_entry e \<Longrightarrow>
   Notebook_init_loop entries acc = Inr (acc @ map cell_of (filter recognized entries))"
  using Notebook_init_loop_prefix [of entries "[]" acc] by simp

lemma Notebook_init_loop_ill_formed:
  assumes "\<not> wf_entry e"
  shows "Notebook_init_loop (e # post) acc = Inl (entry_error e)"
proof (cases "py_getitem e (ascii ''cell_type'')")
  case (Inl err)
  then have "err = entry_error e"
    by (cases e) (auto split: option.splits)
  then show ?thesis using Inl by simp
next
  case (Inr t)
  then obtain kvs where e: "e = JObj kvs" by (cases e) auto
  show ?thesis
  proof (cases "t = JStr (ascii ''code'')")
    case True
    then have "is_code e" "\<not> is_markdown e" using Inr by (simp_all add: is_code_def is_markdown_def)
    then have "CodeCell_init e = Inl KeyError"
      using assms Inr e
      by (auto simp: wf_entry_def has_key_def recognized_def CodeCell_init_def Cell_init_def
          split: option.splits sum.splits)
    then show ?thesis using Inr True e by simp
  next
    case False
    then have nc: "\<not> is_code e" using Inr by (simp add: is_code_def)
    have "is_markdown e"
      using assms Inr nc by (auto simp: wf_entry_def has_key_def recognized_def)
    then have md: "t = JStr (ascii ''markdown'')" using Inr by (simp add: is_markdown_def)
    have "MarkdownCell_init e = Inl KeyError"
      using assms Inr e nc \<open>is_markdown e\<close>
      by (auto simp: wf_entry_def has_key_def recognized_def MarkdownCell_init_def Cell_init_def
          split: option.splits sum.splits)
    then show ?thesis using Inr False md e by simp
  qed
qed

lemma untyped_not_wf: "map_of kvs (ascii ''cell_type'') = None \<Longrightarrow> \<not> wf_entry (JObj kvs)"
  by (simp add: wf_entry_def has_key_def)

text \<open>
  Claim C2, as the code has it. Let the version extractor return \<open>v\<close> and the raw
  cell list be \<open>entries\<close>. When every entry is well formed (a dictionary with a
  \<open>cell_type\<close> and, if that is \<open>code\<close> or \<open>markdown\<close>, the keys its class reads),
  construction succeeds; the cells are those of the entries whose \<open>cell_type\<close> is \<open>code\<close>
  or \<open>markdown\<close>, in their order, every other entry is dropped without an error, and the
  count goes down by the number of dropped entries. Otherwise construction raises the
  exception of the first entry that is not well formed. In particular an entry
  without a \<open>cell_type\<close> is not dropped: it raises \<open>KeyError\<close>.
\<close>

theorem notebook_init_keeps_recognized:
  assumes "get_format_version ipynb = Inr v"
    and "py_getitem ipynb (ascii ''cells'') = Inr (JList entries)"
  shows "((\<forall>x \<in> set entries. wf_entry x) \<longrightarrow>
            Notebook_init ipynb =
              Inr \<lparr>version = v, cells = map cell_of (filter recognized entries)\<rparr> \<and>
            length (map cell_of (filter recognized entries)) =
              length entries - length (filter (\<lambda>e. \<not> recognized e) entries)) \<and>
         (entries = pre @ e # post \<and> (\<forall>x \<in> set pre. wf_entry x) \<and> \<not> wf_entry e \<longrightarrow>
            Notebook_init ipynb = Inl (entry_error e)) \<and>
         (entries = pre @ JObj kvs # post \<and> (\<forall>x \<in> set pre. wf_entry x) \<and>
          map_of kvs (ascii ''cell_type'') = None \<longrightarrow>
            Notebook_init ipynb = Inl KeyError)"
proof (intro conjI impI)
  assume wf: "\<forall>x \<in> set entries. wf_entry x"
  then show "Notebook_init ipynb =
      Inr \<lparr>version = v, cells = map cell_of (filter recognized entries)\<rparr>"
    using assms by (simp add: Notebook_init_def Notebook_init_loop_wf)
next
  have "length (filter recognized entries) + length (filter (\<lambda>e. \<not> recognized e) entries)
        = length entries"
    by (rule sum_length_filter_compl)
  then show "length (map cell_of (filter recognized entries)) =
      length entries - length (filter (\<lambda>e. \<not> recognized e) entries)"
    by simp
next
  assume "entries = pre @ e # post \<and> (\<forall>x \<in> set pre. wf_entry x) \<and> \<not> wf_entry e"
  then have "Notebook_init_loop entries [] = Inl (entry_error e)"
    by (simp add: Notebook_init_loop_prefix Notebook_init_loop_ill_formed
        del: Notebook_init_loop.simps)
  then show "Notebook_init ipynb = Inl (entry_error e)"
    using assms by (simp add: Notebook_init_def)
next
  assume "entries = pre @ JObj kvs # post \<and> (\<forall>x \<in> set pre. wf_entry x) \<and>
          map_of kvs (ascii ''cell_type'') = None"
  then have "Notebook_init_loop entries [] = Inl (entry_error (JObj kvs))"
    by (simp add: Notebook_init_loop_prefix Notebook_init_loop_ill_formed untyped_not_wf
        del: Notebook_init_loop.simps)
  then show "Notebook_init ipynb = Inl KeyError"
    using assms by (simp add: Notebook_init_def)
qed

theorem notebook_init_keeps_recognized_witness:
  "get_format_version hello_ipynb = Inr (ascii ''4.5'') \<and>
   py_getitem hello_ipynb (ascii ''cells'') =
     Inr (JList [hello_markdown, hello_code, hello_raw, goodbye_markdown]) \<and>
   wf_entry hello_markdown \<and> wf_entry hello_code \<and> wf_entry hello_raw \<and>
   wf_entry goodbye_markdown \<and>
   Notebook_init hello_ipynb =
     Inr \<lparr>version = ascii ''4.5'',
          cells = [cell_of hello_markdown, cell_of hello_code, cell_of goodbye_markdown]\<rparr> \<and>
   length [cell_of hello_markdown, cell_of hello_code, cell_of goodbye_markdown] = 4 - 1 \<and>
   get_format_version untyped_ipynb = Inr (ascii ''4.5'') \<and>
   py_getitem untyped_ipynb (ascii ''cells'') =
     Inr (JList ([hello_markdown, hello_code] @ untyped_entry # [goodbye_markdown])) \<and>
   untyped_entry =
     JObj [(ascii ''id'', JStr (ascii ''c0ffee00'')), (ascii ''metadata'', JObj []),
           (ascii ''source'', JList [])] \<and>
   map_of [(ascii ''id'', JStr (ascii ''c0ffee00'')), (ascii ''metadata'', JObj []),
           (ascii ''source'', JList [])] (ascii ''cell_type'') = None \<and>
   \<not> wf_entry untyped_entry \<and> entry_error untyped_entry = KeyError \<and>
   Notebook_init untyped_ipynb = Inl KeyError"
proof -
  have v: "get_format_version hello_ipynb = Inr (ascii ''4.5'')"
    by (simp add: get_format_version_def hello_ipynb_def py_str_int_def nat_digits.simps ascii_def)
  have c: "py_getitem hello_ipynb (ascii ''cells'') =
     Inr (JList [hello_markdown, hello_code, hello_raw, goodbye_markdown])"
    by (simp add: hello_ipynb_def)
  have wf: "wf_entry hello_markdown" "wf_entry hello_code" "wf_entry hello_raw"
    "wf_entry goodbye_markdown"
    by (simp_all add: wf_entry_def has_key_def recognized_def is_code_def is_markdown_def
        hello_markdown_def hello_code_def hello_raw_def goodbye_markdown_def)
  have r: "recognized hello_markdown" "recognized hello_code" "\<not> recognized hello_raw"
    "recognized goodbye_markdown"
    by (simp_all add: recognized_def is_code_def is_markdown_def
        hello_markdown_def hello_code_def hello_raw_def goodbye_markdown_def)
  have v': "get_format_version untyped_ipynb = Inr (ascii ''4.5'')"
    by (simp add: get_format_version_def untyped_ipynb_def py_str_int_def nat_digits.simps
        ascii_def)
  have c': "py_getitem untyped_ipynb (ascii ''cells'') =
     Inr (JList ([hello_markdown, hello_code] @ untyped_entry # [goodbye_markdown]))"
    by (simp add: untyped_ipynb_def)
  have u: "untyped_entry =
     JObj [(ascii ''id'', JStr (ascii ''c0ffee00'')), (ascii ''metadata'', JObj []),
           (ascii ''source'', JList [])]"
    by (simp add: untyped_entry_def)
  have k: "map_of [(ascii ''id'', JStr (ascii ''c0ffee00'')), (ascii ''metadata'', JObj []),
           (ascii ''source'', JList [])] (ascii ''cell_type'') = None"
    by simp
  have nwf: "\<not> wf_entry untyped_entry"
    by (simp add: wf_entry_def has_key_def untyped_entry_def)
  have first: "Notebook_init hello_ipynb =
     Inr \<lparr>version = ascii ''4.5'',
          cells = [cell_of hello_markdown, cell_of hello_code, cell_of goodbye_markdown]\<rparr>"
    using notebook_init_keeps_recognized [OF v c] wf by (simp add: r)
  have second: "Notebook_init untyped_ipynb = Inl (entry_error untyped_entry)"
    using notebook_init_keeps_recognized [OF v' c',
        of "[hello_markdown, hello_code]" untyped_entry "[goodbye_markdown]"] wf nwf
    by simp
  have e: "entry_error untyped_entry = KeyError" by (simp add: untyped_entry_def)
  have third: "Notebook_init untyped_ipynb = Inl KeyError"
    using notebook_init_keeps_recognized [OF v' c',
        of "[hello_markdown, hello_code]" untyped_entry "[goodbye_markdown]"
           "[(ascii ''id'', JStr (ascii ''c0ffee00'')), (ascii ''metadata'', JObj []),
             (ascii ''source'', JList [])]"] wf u k
    by simp
  show ?thesis
    using v c wf first v' c' u k nwf e second third by simp
qed

text \<open>
  The claim as stated fails: the third entry of this raw structure has no \<open>cell_type\<close>,
  so it is none of the recognized ones, and construction does not drop it but raises
  \<open>KeyError\<close>.
\<close>

theorem notebook_init_keeps_recognized_cex:
  "get_format_version untyped_ipynb = Inr (ascii ''4.5'') \<and>
   py_getitem untyped_ipynb (ascii ''cells'') =
     Inr (JList [hello_markdown, hello_code, untyped_entry, goodbye_markdown]) \<and>
   \<not> recognized untyped_entry \<and>
   Notebook_init untyped_ipynb = Inl KeyError \<and>
   Notebook_init untyped_ipynb \<noteq>
     Inr \<lparr>version = ascii ''4.5'',
          cells = map cell_of
            (filter recognized [hello_markdown, hello_code, untyped_entry, goodbye_markdown])\<rparr>"
proof -
  have v: "get_format_version untyped_ipynb = Inr (ascii ''4.5'')"
    by (simp add: get_format_version_def untyped_ipynb_def py_str_int_def nat_digits.simps
        ascii_def)
  have c: "py_getitem untyped_ipynb (ascii ''cells'') =
     Inr (JList [hello_markdown, hello_code, untyped_entry, goodbye_markdown])"
    by (simp add: untyped_ipynb_def)
  have r: "\<not> recognized untyped_entry"
    by (simp add: recognized_def is_code_def is_markdown_def untyped_entry_def)
  have m: "MarkdownCell_init hello_markdown = Inr (cell_of hello_markdown)"
    by (simp add: MarkdownCell_init_def Cell_init_def cell_of_def field_def is_code_def
        hello_markdown_def)
  have k: "CodeCell_init hello_code = Inr (cell_of hello_code)"
    by (simp add: CodeCell_init_def Cell_init_def cell_of_def field_def is_code_def
        hello_code_def)
  have t: "py_getitem hello_markdown (ascii ''cell_type'') = Inr (JStr (ascii ''markdown''))"
    "py_getitem hello_code (ascii ''cell_type'') = Inr (JStr (ascii ''code''))"
    "py_getitem untyped_entry (ascii ''cell_type'') = Inl KeyError"
    by (simp_all add: hello_markdown_def hello_code_def untyped_entry_def)
  have "Notebook_init_loop [hello_markdown, hello_code, untyped_entry, goodbye_markdown] [] =
        Inl KeyError"
    by (simp add: t m k)
  then have e: "Notebook_init untyped_ipynb = Inl KeyError"
    using v c by (simp add: Notebook_init_def)
  show ?thesis using v c r e by simp
qed

subsection \<open>Strings and integers\<close>

lemma py_split_not_Nil [simp]: "py_split sep s \<noteq> []"
  by (induction s) (auto split: list.splits)

lemma py_split_unfold:
  "py_split sep v =
     takeWhile (\<lambda>c. c \<noteq> sep) v #
     (case dropWhile (\<lambda>c. c \<noteq> sep) v of [] \<Rightarrow> [] | c # r \<Rightarrow> py_split sep r)"
  by (induction v) (auto split: list.splits)

lemma py_split_no_sep: "sep \<notin> set s \<Longrightarrow> py_split sep s = [s]"
  by (induction s) (auto split: list.splits)

lemma py_split_append: "sep \<notin> set a \<Longrightarrow> py_split sep (a @ sep # b) = a # py_split sep b"
  by (induction a) (auto split: list.splits)

lemma length_py_split: "length (py_split sep v) = Suc (count_list v sep)"
  by (induction v) (auto split: list.splits)

lemma py_split_two_iff:
  "(\<exists>a b. py_split 46 v = [a, b]) \<longleftrightarrow> count_list v 46 = 1"
proof
  assume "\<exists>a b. py_split 46 v = [a, b]"
  then have "length (py_split 46 v) = 2" by auto
  then show "count_list v 46 = 1" by (simp add: length_py_split)
next
  assume "count_list v 46 = 1"
  then have "length (py_split 46 v) = 2" by (simp add: length_py_split)
  then show "\<exists>a b. py_split 46 v = [a, b]"
    by (cases "py_split 46 v"; cases "tl (py_split 46 v)") auto
qed

lemma py_split_two_parts:
  assumes "py_split 46 v = [a, b]"
  shows "a = major_part v \<and> b = minor_part v"
proof -
  have a: "a = major_part v"
    using assms py_split_unfold [of 46 v] by (simp add: major_part_def)
  have "(case dropWhile (\<lambda>c. c \<noteq> 46) v of [] \<Rightarrow> [] | c # r \<Rightarrow> py_split 46 r) = [b]"
    using assms py_split_unfold [of 46 v] by simp
  then obtain c r where d: "dropWhile (\<lambda>c. c \<noteq> 46) v = c # r" and r: "py_split 46 r = [b]"
    by (auto split: list.splits)
  have "b = r"
    using r py_split_unfold [of 46 r] by (auto split: list.splits dest: takeWhile_eq_all_conv[THEN iffD1] simp: takeWhile_eq_all_conv dropWhile_eq_Nil_conv)
  then show ?thesis using a d by (simp add: minor_part_def)
qed

lemma digit_value_ascii: "is_digit c \<Longrightarrow> digit_value c = Some (c - 48)"
  by (simp add: digit_value_def decimal_zeros_def is_digit_def)

lemma digit_value_None_iff: "digit_value c = None \<longleftrightarrow> \<not> int_digit c"
  by (auto simp: digit_value_def int_digit_def find_None_iff list_ex_iff)

lemma digits_loop_iff:
  "digits_loop acc prev cs \<noteq> None \<longleftrightarrow>
     (case py_split 95 cs of
        [] \<Rightarrow> False
      | g # gs \<Rightarrow> (prev \<or> g \<noteq> []) \<and> list_all int_digit g \<and>
                 list_all (\<lambda>g. g \<noteq> [] \<and> list_all int_digit g) gs)"
proof (induction cs arbitrary: acc prev)
  case Nil
  then show ?case by simp
next
  case (Cons c cs)
  obtain g gs where s: "py_split 95 cs = g # gs"
    by (cases "py_split 95 cs") auto
  show ?case
  proof (cases "c = 95")
    case True
    then show ?thesis using Cons.IH [of acc False] s by auto
  next
    case False
    show ?thesis
    proof (cases "digit_value c")
      case None
      then have "\<not> int_digit c" by (simp add: digit_value_None_iff)
      then show ?thesis using False None s by simp
    next
      case (Some d)
      then have "int_digit c" using digit_value_None_iff [of c] by simp
      then show ?thesis using False Some s Cons.IH [of "10 * acc + d" True] by simp
    qed
  qed
qed

lemma digits_loop_digits:
  "list_all is_digit s \<Longrightarrow> s \<noteq> [] \<or> prev \<Longrightarrow>
   digits_loop acc prev s = Some (foldl (\<lambda>a c. 10 * a + (c - 48)) acc s)"
proof (induction s arbitrary: acc prev)
  case Nil
  then show ?case by simp
next
  case (Cons c s)
  then have c: "is_digit c" and s: "list_all is_digit s" by simp_all
  have "c \<noteq> 95" using c by (auto simp: is_digit_def)
  then show ?case
    using Cons.IH [OF s, of True "10 * acc + (c - 48)"] by (simp add: digit_value_ascii [OF c])
qed

lemma set_py_strip: "set (py_strip s) \<subseteq> set s"
  by (auto simp: py_strip_def dest!: set_dropWhileD)

lemma dropWhile_hd_id: "xs \<noteq> [] \<Longrightarrow> \<not> P (hd xs) \<Longrightarrow> dropWhile P xs = xs"
  by (cases xs) auto

lemma strip_id:
  assumes "s = [] \<or> (\<not> P (hd s) \<and> \<not> P (last s))"
  shows "rev (dropWhile P (rev (dropWhile P s))) = s"
proof (cases "s = []")
  case True
  then show ?thesis by simp
next
  case False
  with assms have h: "\<not> P (hd s)" and l: "\<not> P (last s)" by auto
  have 1: "dropWhile P s = s"
    using False h by (rule dropWhile_hd_id)
  have "rev s \<noteq> []" using False by simp
  moreover have "\<not> P (hd (rev s))" using False l by (simp add: hd_rev)
  ultimately have 2: "dropWhile P (rev s) = rev s"
    by (rule dropWhile_hd_id)
  show ?thesis by (simp add: 1 2)
qed

lemma py_strip_id:
  assumes "s = [] \<or> (\<not> py_isspace (hd s) \<and> \<not> py_isspace (last s))"
  shows "py_strip s = s"
  unfolding py_strip_def using assms by (rule strip_id)

lemma int_strip_id:
  assumes "s = [] \<or> (\<not> int_isspace (hd s) \<and> \<not> int_isspace (last s))"
  shows "int_strip s = s"
  unfolding int_strip_def using assms by (rule strip_id)

lemma digit_not_space: "is_digit c \<Longrightarrow> \<not> int_isspace c"
  by (auto simp: is_digit_def int_isspace_def)

lemma numeric_strip: "numeric s \<Longrightarrow> int_strip s = s"
proof -
  assume n: "numeric s"
  then have "s \<noteq> []" "is_digit (hd s)" "is_digit (last s)"
    by (auto simp: numeric_def list_all_iff)
  then show ?thesis by (intro int_strip_id) (simp add: digit_not_space)
qed

lemma py_int_numeric: "numeric s \<Longrightarrow> py_int s = Inr (int (decimal_value s))"
proof -
  assume n: "numeric s"
  have strip: "int_strip s = s" using n by (rule numeric_strip)
  have d: "list_all is_digit s" using n by (simp add: numeric_def)
  have dl: "digits_loop 0 False s = Some (decimal_value s)"
    unfolding decimal_value_def using d n by (intro digits_loop_digits) (auto simp: numeric_def)
  obtain c r where s: "s = c # r" using n by (cases s) (auto simp: numeric_def)
  have c: "c \<noteq> 43" "c \<noteq> 45" using d s by (auto simp: is_digit_def)
  have "py_int s = (case digits_loop 0 False s of None \<Rightarrow> Inl ValueError | Some n \<Rightarrow> Inr (int n))"
    unfolding py_int_def Let_def strip using c by (simp add: s)
  then show ?thesis by (simp add: dl)
qed

lemma digits_loop_groups:
  "list_all (\<lambda>g. g \<noteq> [] \<and> list_all int_digit g) (py_split 95 r) \<longleftrightarrow>
     digits_loop 0 False r \<noteq> None"
  using digits_loop_iff [of 0 False r] by (cases "py_split 95 r") auto

lemma py_int_iff:
  "(py_int s = Inl ValueError \<longleftrightarrow> \<not> int_literal s) \<and>
   (int_literal s \<longrightarrow> (\<exists>i. py_int s = Inr i))"
proof (cases "int_strip s")
  case Nil
  then show ?thesis by (simp add: py_int_def int_literal_def)
next
  case (Cons c r)
  show ?thesis
  proof (cases "c = 43 \<or> c = 45")
    case True
    have "int_literal s \<longleftrightarrow> digits_loop 0 False r \<noteq> None"
      using True Cons by (simp add: int_literal_def digits_loop_groups)
    moreover have "py_int s =
        (case digits_loop 0 False r of
           None \<Rightarrow> Inl ValueError
         | Some n \<Rightarrow> Inr (if c = 43 then int n else - int n))"
      unfolding py_int_def Let_def using True Cons by (auto split: option.splits)
    ultimately show ?thesis by (auto split: option.splits)
  next
    case False
    have "int_literal s \<longleftrightarrow> digits_loop 0 False (int_strip s) \<noteq> None"
      using False Cons by (simp add: int_literal_def digits_loop_groups del: py_split.simps)
    moreover have "py_int s =
        (case digits_loop 0 False (int_strip s) of
           None \<Rightarrow> Inl ValueError
         | Some n \<Rightarrow> Inr (int n))"
      unfolding py_int_def Let_def using False Cons by (auto split: option.splits)
    ultimately show ?thesis by (auto split: option.splits)
  qed
qed

lemma serialize_loop_error: "serialize_loop cs acc = Inl e \<Longrightarrow> e = AttributeError"
  by (induction cs arbitrary: acc)
    (auto simp: serialize_cell_def Let_def split: if_splits option.splits sum.splits)


lemma serialize_parts:
  assumes "py_split 46 (version nb) = [a, b]"
  shows "serialize nb =
     (case py_int a of
        Inl e \<Rightarrow> Inl e
      | Inr major \<Rightarrow>
          (case py_int b of
             Inl e \<Rightarrow> Inl e
           | Inr minor \<Rightarrow>
               (case serialize_loop (cells nb) [] of
                  Inl e \<Rightarrow> Inl e
                | Inr cs \<Rightarrow>
                    Inr (JObj [(ascii ''cells'', JList cs), (ascii ''metadata'', JObj []),
                               (ascii ''nbformat'', JInt major),
                               (ascii ''nbformat_minor'', JInt minor)]))))"
  by (simp add: serialize_def assms)

lemma serialize_not_two:
  assumes "count_list (version nb) 46 \<noteq> 1"
  shows "serialize nb = Inl ValueError"
proof -
  have "\<not> (\<exists>a b. py_split 46 (version nb) = [a, b])"
    using assms by (simp add: py_split_two_iff)
  then show ?thesis
    by (auto simp: serialize_def split: list.splits)
qed

lemma serialize_value_error_iff:
  "serialize nb = Inl ValueError \<longleftrightarrow>
     count_list (version nb) 46 \<noteq> 1 \<or> \<not> int_literal (major_part (version nb)) \<or>
     \<not> int_literal (minor_part (version nb))"
proof (cases "count_list (version nb) 46 = 1")
  case False
  then show ?thesis by (simp add: serialize_not_two)
next
  case True
  then obtain a b where ab: "py_split 46 (version nb) = [a, b]"
    using py_split_two_iff [of "version nb"] by auto
  then have parts: "a = major_part (version nb)" "b = minor_part (version nb)"
    using py_split_two_parts by auto
  note A = py_int_iff [of a] and B = py_int_iff [of b]
  show ?thesis
  proof (cases "int_literal a")
    case False
    then have "py_int a = Inl ValueError" using A by simp
    then show ?thesis using False True parts by (simp add: serialize_parts [OF ab])
  next
    case la: True
    then obtain i where i: "py_int a = Inr i" using A by auto
    show ?thesis
    proof (cases "int_literal b")
      case False
      then have "py_int b = Inl ValueError" using B by simp
      then show ?thesis using False True parts i by (simp add: serialize_parts [OF ab])
    next
      case lb: True
      then obtain j where j: "py_int b = Inr j" using B by auto
      have "serialize nb \<noteq> Inl ValueError"
        using i j serialize_loop_error [of "cells nb" "[]"]
        by (auto simp: serialize_parts [OF ab] split: sum.splits)
      then show ?thesis using la lb True parts by simp
    qed
  qed
qed

lemma numeric_no_dot: "numeric s \<Longrightarrow> 46 \<notin> set s"
  by (auto simp: numeric_def list_all_iff is_digit_def)

lemma serialize_numeric:
  assumes "numeric n1" "numeric n2" "version nb = n1 @ [46] @ n2"
    and "serialize_loop (cells nb) [] = Inr cs"
  shows "serialize nb =
     Inr (JObj [(ascii ''cells'', JList cs), (ascii ''metadata'', JObj []),
                (ascii ''nbformat'', JInt (int (decimal_value n1))),
                (ascii ''nbformat_minor'', JInt (int (decimal_value n2)))])"
proof -
  have "py_split 46 (version nb) = [n1, n2]"
    using assms(1,2,3) by (simp add: py_split_append py_split_no_sep numeric_no_dot)
  then show ?thesis
    using assms by (simp add: serialize_parts py_int_numeric)
qed


text \<open>
  Claim C3, as the code has it. \<open>serialize\<close> raises \<open>ValueError\<close> exactly when the
  version does not contain exactly one full stop or \<open>int\<close> rejects one of the halves,
  and \<open>int\<close> accepts more than strings of the digits 0 to 9: whitespace around the
  literal, a sign, single underscores between digits, the decimal digits of other
  scripts. When both halves are non-empty strings of the digits 0 to 9, \<open>nbformat\<close> and
  \<open>nbformat_minor\<close> are their decimal values; \<open>4.5\<close> gives 4 and 5, \<open>10.2\<close> gives 10
  and 2. The whitespace of \<open>int\<close> is not that of \<open>str.strip\<close>: a version that starts
  with the separator 28 is rejected, one that starts with a no-break space (160) is
  not. The fullwidth digits 65300 and 65301 stand for 4 and 5.
\<close>

theorem serialize_version:
  "(serialize nb = Inl ValueError \<longleftrightarrow>
      count_list (version nb) 46 \<noteq> 1 \<or> \<not> int_literal (major_part (version nb)) \<or>
      \<not> int_literal (minor_part (version nb))) \<and>
   (numeric n1 \<and> numeric n2 \<and> version nb = n1 @ [46] @ n2 \<and>
    serialize_loop (cells nb) [] = Inr cs \<longrightarrow>
      serialize nb =
        Inr (JObj [(ascii ''cells'', JList cs), (ascii ''metadata'', JObj []),
                   (ascii ''nbformat'', JInt (int (decimal_value n1))),
                   (ascii ''nbformat_minor'', JInt (int (decimal_value n2)))])) \<and>
   serialize \<lparr>version = ascii ''4.5'', cells = []\<rparr> =
     Inr (JObj [(ascii ''cells'', JList []), (ascii ''metadata'', JObj []),
                (ascii ''nbformat'', JInt 4), (ascii ''nbformat_minor'', JInt 5)]) \<and>
   serialize \<lparr>version = ascii ''10.2'', cells = []\<rparr> =
     Inr (JObj [(ascii ''cells'', JList []), (ascii ''metadata'', JObj []),
                (ascii ''nbformat'', JInt 10), (ascii ''nbformat_minor'', JInt 2)]) \<and>
   serialize \<lparr>version = 28 # ascii ''4.5'', cells = []\<rparr> = Inl ValueError \<and>
   serialize \<lparr>version = 160 # ascii ''4.5'', cells = []\<rparr> =
     Inr (JObj [(ascii ''cells'', JList []), (ascii ''metadata'', JObj []),
                (ascii ''nbformat'', JInt 4), (ascii ''nbformat_minor'', JInt 5)]) \<and>
   serialize \<lparr>version = [65300, 46, 65301], cells = []\<rparr> =
     Inr (JObj [(ascii ''cells'', JList []), (ascii ''metadata'', JObj []),
                (ascii ''nbformat'', JInt 4), (ascii ''nbformat_minor'', JInt 5)])"
proof (intro conjI impI)
  show "serialize nb = Inl ValueError \<longleftrightarrow>
      count_list (version nb) 46 \<noteq> 1 \<or> \<not> int_literal (major_part (version nb)) \<or>
      \<not> int_literal (minor_part (version nb))"
    by (rule serialize_value_error_iff)
next
  assume "numeric n1 \<and> numeric n2 \<and> version nb = n1 @ [46] @ n2 \<and>
    serialize_loop (cells nb) [] = Inr cs"
  then show "serialize nb =
        Inr (JObj [(ascii ''cells'', JList cs), (ascii ''metadata'', JObj []),
                   (ascii ''nbformat'', JInt (int (decimal_value n1))),
                   (ascii ''nbformat_minor'', JInt (int (decimal_value n2)))])"
    by (simp add: serialize_numeric)
next
  show "serialize \<lparr>version = ascii ''4.5'', cells = []\<rparr> =
     Inr (JObj [(ascii ''cells'', JList []), (ascii ''metadata'', JObj []),
                (ascii ''nbformat'', JInt 4), (ascii ''nbformat_minor'', JInt 5)])"
    by (simp add: serialize_def py_int_def int_strip_def int_isspace_def digit_value_def
        decimal_zeros_def ascii_def)
next
  show "serialize \<lparr>version = ascii ''10.2'', cells = []\<rparr> =
     Inr (JObj [(ascii ''cells'', JList []), (ascii ''metadata'', JObj []),
                (ascii ''nbformat'', JInt 10), (ascii ''nbformat_minor'', JInt 2)])"
    by (simp add: serialize_def py_int_def int_strip_def int_isspace_def digit_value_def
        decimal_zeros_def ascii_def)
next
  show "serialize \<lparr>version = 28 # ascii ''4.5'', cells = []\<rparr> = Inl ValueError"
    by (simp add: serialize_def py_int_def int_strip_def int_isspace_def digit_value_def
        decimal_zeros_def ascii_def)
next
  show "serialize \<lparr>version = 160 # ascii ''4.5'', cells = []\<rparr> =
     Inr (JObj [(ascii ''cells'', JList []), (ascii ''metadata'', JObj []),
                (ascii ''nbformat'', JInt 4), (ascii ''nbformat_minor'', JInt 5)])"
    by (simp add: serialize_def py_int_def int_strip_def int_isspace_def py_isspace_def
        digit_value_def decimal_zeros_def ascii_def)
next
  show "serialize \<lparr>version = [65300, 46, 65301], cells = []\<rparr> =
     Inr (JObj [(ascii ''cells'', JList []), (ascii ''metadata'', JObj []),
                (ascii ''nbformat'', JInt 4), (ascii ''nbformat_minor'', JInt 5)])"
    by (simp add: serialize_def py_int_def int_strip_def int_isspace_def py_isspace_def
        digit_value_def decimal_zeros_def)
qed

theorem serialize_version_witness:
  "numeric (ascii ''4'') \<and> numeric (ascii ''5'') \<and>
   version \<lparr>version = ascii ''4.5'', cells = []\<rparr> = ascii ''4'' @ [46] @ ascii ''5'' \<and>
   serialize_loop (cells \<lparr>version = ascii ''4.5'', cells = []\<rparr>) [] = Inr [] \<and>
   count_list (ascii ''4.5'') 46 = 1 \<and>
   int_literal (major_part (ascii ''4.5'')) \<and> int_literal (minor_part (ascii ''4.5'')) \<and>
   serialize \<lparr>version = ascii ''4.5'', cells = []\<rparr> \<noteq> Inl ValueError \<and>
   serialize \<lparr>version = ascii ''4.5'', cells = []\<rparr> =
     Inr (JObj [(ascii ''cells'', JList []), (ascii ''metadata'', JObj []),
                (ascii ''nbformat'', JInt (int (decimal_value (ascii ''4'')))),
                (ascii ''nbformat_minor'', JInt (int (decimal_value (ascii ''5''))))])"
  using serialize_version [of "\<lparr>version = ascii ''4.5'', cells = []\<rparr>" "ascii ''4''" "ascii ''5''" "[]"]
  by (simp add: numeric_def is_digit_def int_literal_def int_digit_def major_part_def
      minor_part_def int_strip_def int_isspace_def decimal_zeros_def decimal_value_def ascii_def)

text \<open>
  The claim as stated fails: the major half of the version \<open>1_0.2\<close> is not numeric,
  and \<open>serialize\<close> does not raise but returns \<open>nbformat\<close> 10.
\<close>

theorem serialize_version_cex:
  "spec_malformed_version (ascii ''1_0.2'') \<and>
   serialize \<lparr>version = ascii ''1_0.2'', cells = []\<rparr> =
     Inr (JObj [(ascii ''cells'', JList []), (ascii ''metadata'', JObj []),
                (ascii ''nbformat'', JInt 10), (ascii ''nbformat_minor'', JInt 2)])"
  by (simp add: spec_malformed_version_def major_part_def minor_part_def numeric_def is_digit_def
      serialize_def py_int_def int_strip_def int_isspace_def digit_value_def decimal_zeros_def
      ascii_def)

subsection \<open>The outline of an empty notebook\<close>

text \<open>
  Claim C6, as the code has it. The outline of a notebook with version \<open>4.5\<close> and no
  cells is the header line without its newline: \<open>text[:-1]\<close> removes it.
\<close>

theorem outline_empty:
  "outline \<lparr>version = ascii ''4.5'', cells = []\<rparr> = Inr (ascii ''Jupyter Notebook v4.5'')"
  by (simp add: outline_def ascii_def)

text \<open>The claim as stated fails: the result does not end with a newline.\<close>

theorem outline_empty_cex:
  "outline \<lparr>version = ascii ''4.5'', cells = []\<rparr> \<noteq>
     Inr (ascii ''Jupyter Notebook v4.5'' @ [10])"
  by (simp add: outline_def ascii_def)

subsection \<open>The cell types of a serialized notebook\<close>

lemma CodeCell_init_built: "CodeCell_init entry = Inr c \<Longrightarrow> built_cell c"
  by (auto simp: CodeCell_init_def Cell_init_def built_cell_def split: sum.splits)

lemma MarkdownCell_init_built: "MarkdownCell_init entry = Inr c \<Longrightarrow> built_cell c"
  by (auto simp: MarkdownCell_init_def Cell_init_def built_cell_def split: sum.splits)

lemma Notebook_init_loop_step:
  assumes "Notebook_init_loop (entry # rest) acc = Inr cs" and "list_all built_cell acc"
  shows "\<exists>acc'. Notebook_init_loop rest acc' = Inr cs \<and> list_all built_cell acc'"
  using assms
  by (fastforce split: sum.splits if_splits
      dest: CodeCell_init_built MarkdownCell_init_built)

lemma Notebook_init_loop_built:
  "Notebook_init_loop entries acc = Inr cs \<Longrightarrow> list_all built_cell acc \<Longrightarrow> list_all built_cell cs"
proof (induction entries arbitrary: acc)
  case Nil
  then show ?case by simp
next
  case (Cons entry rest)
  from Notebook_init_loop_step [OF Cons.prems]
  obtain acc' where "Notebook_init_loop rest acc' = Inr cs" "list_all built_cell acc'"
    by blast
  then show ?case by (rule Cons.IH)
qed

lemma Notebook_init_built:
  "Notebook_init ipynb = Inr nb \<Longrightarrow> list_all built_cell (cells nb)"
  by (auto simp: Notebook_init_def split: sum.splits dest!: Notebook_init_loop_built)

lemma serialize_loop_step:
  assumes "serialize_loop (c # rest) acc = Inr es" and "built_cell c"
  shows "\<exists>d. typed_entry d \<and> serialize_loop rest (acc @ [d]) = Inr es"
proof (cases "cls c = MarkdownCell")
  case True
  let ?d = "JObj [(ascii ''cell_type'', JStr (ascii ''markdown'')), (ascii ''id'', cell_id c),
                  (ascii ''metadata'', JObj []), (ascii ''source'', source c)]"
  have "serialize_loop rest (acc @ [?d]) = Inr es"
    using assms(1) True by (simp add: serialize_cell_def Let_def)
  moreover have "typed_entry ?d" by (simp add: typed_entry_def)
  ultimately show ?thesis by blast
next
  case False
  with assms(2) obtain n where code: "cls c = CodeCell" and n: "execution_count c = Some n"
    by (auto simp: built_cell_def)
  let ?d = "JObj [(ascii ''cell_type'', JStr (ascii ''code'')), (ascii ''id'', cell_id c),
                  (ascii ''metadata'', JObj []), (ascii ''source'', source c),
                  (ascii ''execution_count'', n), (ascii ''outputs'', JList [])]"
  have "serialize_loop rest (acc @ [?d]) = Inr es"
    using assms(1) code n by (simp add: serialize_cell_def Let_def)
  moreover have "typed_entry ?d" by (simp add: typed_entry_def)
  ultimately show ?thesis by blast
qed

lemma serialize_loop_typed:
  "serialize_loop cs acc = Inr es \<Longrightarrow> list_all built_cell cs \<Longrightarrow> list_all typed_entry acc \<Longrightarrow>
   list_all typed_entry es"
proof (induction cs arbitrary: acc)
  case Nil
  then show ?case by simp
next
  case (Cons c rest)
  from Cons.prems(2) have c: "built_cell c" and rest: "list_all built_cell rest" by simp_all
  from serialize_loop_step [OF Cons.prems(1) c]
  obtain d where d: "typed_entry d" and l: "serialize_loop rest (acc @ [d]) = Inr es"
    by blast
  have "list_all typed_entry (acc @ [d])" using Cons.prems(3) d by simp
  with l rest show ?case by (rule Cons.IH)
qed

text \<open>
  Claim C10. In what \<open>serialize\<close> returns for a notebook that \<open>Notebook.__init__\<close> built,
  the \<open>cell_type\<close> of every cell entry is \<open>markdown\<close> or \<open>code\<close>: the placeholder 0 is
  always overwritten, since every cell is a \<open>MarkdownCell\<close> or a \<open>CodeCell\<close>.
\<close>

theorem serialize_cell_type:
  assumes "Notebook_init ipynb = Inr nb" and "serialize nb = Inr s"
  shows "\<exists>es. py_getitem s (ascii ''cells'') = Inr (JList es) \<and> list_all typed_entry es"
proof -
  have b: "list_all built_cell (cells nb)"
    using assms(1) by (rule Notebook_init_built)
  from assms(2) obtain es where es: "serialize_loop (cells nb) [] = Inr es"
    and s: "py_getitem s (ascii ''cells'') = Inr (JList es)"
    by (auto simp: serialize_def split: list.splits sum.splits)
  have "list_all typed_entry es"
    using es b by (rule serialize_loop_typed) simp
  with s show ?thesis by blast
qed


lemma hello_init: "Notebook_init hello_ipynb = Inr hello_nb"
  by (simp add: Notebook_init_def get_format_version_def hello_ipynb_def hello_nb_def
      hello_markdown_def hello_code_def hello_raw_def goodbye_markdown_def
      hello_cell_def print_cell_def goodbye_cell_def
      CodeCell_init_def MarkdownCell_init_def Cell_init_def
      py_str_int_def nat_digits.simps ascii_def)

lemma hello_serialize: "serialize hello_nb = Inr hello_serialized"
  by (simp add: serialize_def serialize_cell_def hello_nb_def hello_serialized_def
      hello_cell_def print_cell_def goodbye_cell_def
      py_int_def int_strip_def int_isspace_def digit_value_def decimal_zeros_def
      py_strip_def py_isspace_def ascii_def)

theorem serialize_cell_type_witness:
  "Notebook_init hello_ipynb = Inr hello_nb \<and> serialize hello_nb = Inr hello_serialized \<and>
   (\<exists>es. py_getitem hello_serialized (ascii ''cells'') = Inr (JList es) \<and>
         list_all typed_entry es)"
  using serialize_cell_type [OF hello_init hello_serialize] hello_init hello_serialize
  by simp

subsection \<open>The glyphs of the outline\<close>








subsection \<open>The py-percent text\<close>

lemma strip_each_strings: "strip_each (map JStr ls) = Inr (map py_strip ls)"
  by (induction ls) simp_all

lemma py_join_lines:
  "ss \<noteq> [] \<Longrightarrow> p @ py_join ([10] @ p) ss @ [10] = concat (map (\<lambda>s. p @ s @ [10]) ss)"
  by (induction "[10] @ p" ss rule: py_join.induct) simp_all

lemma to_py_percent_step:
  assumes "renderable c"
  shows "to_py_percent_loop (c # rest) out = to_py_percent_loop rest (out @ spec_block c)"
proof -
  let ?ls = "source_lines (source c)"
  have src: "source c = JList (map JStr ?ls)" and ne: "?ls \<noteq> []"
    and kind: "cls c = MarkdownCell \<or> cls c = CodeCell"
    using assms by (simp_all add: renderable_def)
  have it: "py_iter (source c) = Inr (map JStr ?ls)"
    by (subst src) simp
  have ne': "map py_strip ?ls \<noteq> []" using ne by simp
  have body: "spec_prefix c @ py_join ([10] @ spec_prefix c) (map py_strip ?ls) @ [10] =
      concat (map (\<lambda>l. spec_prefix c @ py_strip l @ [10]) ?ls)"
    using py_join_lines [OF ne', of "spec_prefix c"] by (simp add: comp_def)
  show ?thesis
  proof (cases "cls c = MarkdownCell")
    case True
    then show ?thesis
      using body
      by (simp add: to_py_percent_cell_def it strip_each_strings spec_block_def spec_marker_def
          spec_prefix_def)
  next
    case False
    with kind have "cls c = CodeCell" by simp
    then show ?thesis
      using body
      by (simp add: to_py_percent_cell_def it strip_each_strings spec_block_def spec_marker_def
          spec_prefix_def)
  qed
qed

lemma to_py_percent_loop_blocks:
  "list_all renderable cs \<Longrightarrow>
   to_py_percent_loop cs out = Inr (out @ concat (map spec_block cs))"
proof (induction cs arbitrary: out)
  case Nil
  then show ?case by simp
next
  case (Cons c rest)
  then have c: "renderable c" and rest: "list_all renderable rest" by simp_all
  show ?case
    by (simp add: to_py_percent_step [OF c] Cons.IH [OF rest] del: to_py_percent_loop.simps)
qed

lemma dropWhile_hd: "dropWhile P xs \<noteq> [] \<Longrightarrow> \<not> P (hd (dropWhile P xs))"
  by (simp add: hd_dropWhile)

lemma last_dropWhile: "dropWhile P xs \<noteq> [] \<Longrightarrow> last (dropWhile P xs) = last xs"
  by (induction xs) (auto split: if_splits)

lemma py_strip_ends:
  "py_strip s = [] \<or> (\<not> py_isspace (hd (py_strip s)) \<and> \<not> py_isspace (last (py_strip s)))"
proof (cases "py_strip s = []")
  case True
  then show ?thesis by simp
next
  case False
  let ?u = "dropWhile py_isspace s"
  let ?w = "dropWhile py_isspace (rev ?u)"
  have w: "?w \<noteq> []" using False by (simp add: py_strip_def)
  have u: "?u \<noteq> []"
  proof
    assume e: "?u = []"
    have "?w = []" unfolding e by simp
    with w show False by (rule notE)
  qed
  have "last (py_strip s) = hd ?w"
    using w by (simp add: py_strip_def last_rev)
  then have l: "\<not> py_isspace (last (py_strip s))"
    using dropWhile_hd [OF w] by simp
  have "hd (py_strip s) = last ?w"
    using w by (simp add: py_strip_def hd_rev)
  also have "\<dots> = last (rev ?u)" using w by (rule last_dropWhile)
  also have "\<dots> = hd ?u" using u by (simp add: last_rev)
  finally have h: "\<not> py_isspace (hd (py_strip s))"
    using dropWhile_hd [OF u] by simp
  show ?thesis using h l by simp
qed

text \<open>
  Claim C4. For a notebook of markdown and code cells whose sources are lists of strings
  with at least one line each, the py-percent text is the concatenation, in cell order,
  of a blank separator line, the marker line and the stripped source lines (prefixed
  with \<open>#\<close> and a space for markdown, unprefixed for code), stripped as a whole. Every
  result is free of leading and trailing whitespace, so it neither starts nor ends with
  a blank line. The notebook of the single code cell \<open>print("Hello world!")\<close> yields the
  marker line followed by that line.
\<close>

theorem to_py_percent_blocks:
  "(list_all renderable (cells nb) \<longrightarrow>
      to_py_percent nb = Inr (py_strip (concat (map spec_block (cells nb))))) \<and>
   (to_py_percent nb = Inr t \<longrightarrow>
      t = [] \<or> (\<not> py_isspace (hd t) \<and> \<not> py_isspace (last t))) \<and>
   to_py_percent \<lparr>version = v, cells = [print_cell]\<rparr> = Inr (ascii ''# %%'' @ [10] @ hello_print)"
proof (intro conjI impI)
  assume "list_all renderable (cells nb)"
  then show "to_py_percent nb = Inr (py_strip (concat (map spec_block (cells nb))))"
    by (simp add: to_py_percent_def to_py_percent_loop_blocks)
next
  assume "to_py_percent nb = Inr t"
  then obtain u where "t = py_strip u"
    by (auto simp: to_py_percent_def split: sum.splits)
  then show "t = [] \<or> (\<not> py_isspace (hd t) \<and> \<not> py_isspace (last t))"
    using py_strip_ends [of u] by simp
next
  show "to_py_percent \<lparr>version = v, cells = [print_cell]\<rparr> = Inr (ascii ''# %%'' @ [10] @ hello_print)"
    by (simp add: to_py_percent_def to_py_percent_cell_def print_cell_def hello_print_def
        py_strip_def py_isspace_def ascii_def)
qed


theorem to_py_percent_blocks_witness:
  "list_all renderable (cells hello_nb) \<and>
   to_py_percent hello_nb = Inr hello_percent \<and>
   hello_percent = py_strip (concat (map spec_block (cells hello_nb))) \<and>
   \<not> py_isspace (hd hello_percent) \<and> \<not> py_isspace (last hello_percent)"
proof -
  have r: "list_all renderable (cells hello_nb)"
    by (simp add: renderable_def source_lines_def hello_nb_def hello_cell_def print_cell_def
        goodbye_cell_def)
  have t: "to_py_percent hello_nb = Inr hello_percent"
    by (simp add: to_py_percent_def to_py_percent_cell_def hello_nb_def hello_cell_def
        print_cell_def goodbye_cell_def hello_print_def hello_percent_def py_strip_def
        py_isspace_def ascii_def)
  have n: "hello_percent \<noteq> []"
    by (simp add: hello_percent_def ascii_def)
  show ?thesis
    using to_py_percent_blocks [of hello_nb hello_percent "[]"] r t n
    by simp
qed

text \<open>
  Claim C5, as the code has it. A markdown or code cell whose source list is empty does
  not make \<open>to_py_percent\<close> fail. It contributes a blank separator line, its marker
  line and one more line that holds only the prefix: the comment prefix \<open>#\<close> and a space
  for a markdown cell, nothing for a code cell. Alone in a notebook, an empty markdown
  cell renders as the marker line followed by the line \<open>#\<close>, an empty code cell as the
  marker line.
\<close>

theorem to_py_percent_empty_source:
  "(source c = JList [] \<and> (cls c = MarkdownCell \<or> cls c = CodeCell) \<longrightarrow>
      to_py_percent_loop (c # rest) out =
        to_py_percent_loop rest (out @ [10] @ spec_marker c @ [10] @ spec_prefix c @ [10]) \<and>
      to_py_percent \<lparr>version = v, cells = [c]\<rparr> =
        Inr (py_strip ([10] @ spec_marker c @ [10] @ spec_prefix c @ [10]))) \<and>
   to_py_percent \<lparr>version = v, cells = [empty_markdown]\<rparr> =
     Inr (ascii ''# %% [markdown]'' @ [10] @ ascii ''#'') \<and>
   to_py_percent \<lparr>version = v, cells = [empty_code]\<rparr> = Inr (ascii ''# %%'')"
proof (intro conjI impI)
  assume a: "source c = JList [] \<and> (cls c = MarkdownCell \<or> cls c = CodeCell)"
  then show "to_py_percent_loop (c # rest) out =
        to_py_percent_loop rest (out @ [10] @ spec_marker c @ [10] @ spec_prefix c @ [10])"
    by (auto simp: to_py_percent_cell_def spec_marker_def spec_prefix_def)
  from a show "to_py_percent \<lparr>version = v, cells = [c]\<rparr> =
        Inr (py_strip ([10] @ spec_marker c @ [10] @ spec_prefix c @ [10]))"
    by (auto simp: to_py_percent_def to_py_percent_cell_def spec_marker_def spec_prefix_def)
next
  show "to_py_percent \<lparr>version = v, cells = [empty_markdown]\<rparr> =
     Inr (ascii ''# %% [markdown]'' @ [10] @ ascii ''#'')"
    by (simp add: to_py_percent_def to_py_percent_cell_def empty_markdown_def py_strip_def
        py_isspace_def ascii_def)
next
  show "to_py_percent \<lparr>version = v, cells = [empty_code]\<rparr> = Inr (ascii ''# %%'')"
    by (simp add: to_py_percent_def to_py_percent_cell_def empty_code_def py_strip_def
        py_isspace_def ascii_def)
qed

theorem to_py_percent_empty_source_witness:
  "source empty_markdown = JList [] \<and> cls empty_markdown = MarkdownCell \<and>
   to_py_percent_loop [empty_markdown] [] =
     Inr ([10] @ ascii ''# %% [markdown]'' @ [10] @ ascii ''# '' @ [10]) \<and>
   source empty_code = JList [] \<and> cls empty_code = CodeCell \<and>
   to_py_percent_loop [empty_code] [] = Inr ([10] @ ascii ''# %%'' @ [10] @ [10])"
  using to_py_percent_empty_source [of empty_markdown "[]" "[]" "[]"]
    to_py_percent_empty_source [of empty_code "[]" "[]" "[]"]
  by (simp add: to_py_percent_cell_def empty_markdown_def empty_code_def spec_marker_def
      spec_prefix_def)

text \<open>
  The claim as stated fails for a markdown cell: after the marker line comes a body
  line holding the comment prefix, so the text is not the marker with an empty body.
\<close>

theorem to_py_percent_empty_source_cex:
  "source empty_markdown = JList [] \<and>
   to_py_percent_loop [empty_markdown] [] \<noteq> Inr (spec_block empty_markdown) \<and>
   to_py_percent \<lparr>version = ascii ''4.5'', cells = [empty_markdown]\<rparr> =
     Inr (ascii ''# %% [markdown]'' @ [10] @ ascii ''#'')"
  by (simp add: to_py_percent_def to_py_percent_cell_def empty_markdown_def spec_block_def
      spec_marker_def source_lines_def py_strip_def py_isspace_def ascii_def)

subsection \<open>The JSON round trip\<close>















subsection \<open>The methods leave the notebook as it is\<close>

lemma keeps_refl [simp]: "keeps h h"
  by (simp add: keeps_def)

lemma keeps_length: "keeps h h' \<Longrightarrow> length h \<le> length h'"
proof -
  assume "keeps h h'"
  then have "length (take (length h) h') = length h" by (simp add: keeps_def)
  then show ?thesis by simp
qed

lemma keeps_append: "keeps h h' \<Longrightarrow> keeps h (h' @ xs)"
  using keeps_length [of h h'] by (simp add: keeps_def)

lemma keeps_update: "keeps h h' \<Longrightarrow> length h \<le> a \<Longrightarrow> keeps h (h'[a := x])"
  by (simp add: keeps_def)

lemma keeps_nth: "keeps h h' \<Longrightarrow> a < length h \<Longrightarrow> h' ! a = h ! a"
  unfolding keeps_def by (metis nth_take)

lemma keeps_get: "keeps h h' \<Longrightarrow> heap_get h a = Some x \<Longrightarrow> heap_get h' a = Some x"
  using keeps_length [of h h'] keeps_nth [of h h' a]
  by (auto simp: heap_get_def split: if_splits)

lemma keeps_trans: "keeps h h' \<Longrightarrow> keeps h' h'' \<Longrightarrow> keeps h h''"
proof -
  assume a: "keeps h h'" and b: "keeps h' h''"
  have l: "length h \<le> length h'" using a by (rule keeps_length)
  have "take (length h) h'' = take (length h) (take (length h') h'')"
    using l by (simp add: min_def)
  also have "\<dots> = take (length h) h'" using b by (simp add: keeps_def)
  also have "\<dots> = h" using a by (simp add: keeps_def)
  finally show ?thesis by (simp add: keeps_def)
qed

lemma keeps_the_cell: "keeps h h' \<Longrightarrow> the_cell h item = Some c \<Longrightarrow> the_cell h' item = Some c"
  by (auto simp: the_cell_def split: pyval.splits option.splits pyobj.splits dest: keeps_get)

lemma keeps_read_notebook:
  assumes "keeps h h'" and "read_notebook h self = Some n"
  shows "read_notebook h' self = Some n"
proof -
  from assms(2) obtain v l items where
    nb: "heap_get h self = Some (ONotebook v (Ref l))" and
    li: "heap_get h l = Some (OList items)" and
    allc: "list_all (\<lambda>item. the_cell h item \<noteq> None) items" and
    n: "n = \<lparr>version = v, cells = map (\<lambda>item. the (the_cell h item)) items\<rparr>"
    by (auto simp: read_notebook_def split: option.splits pyobj.splits pyval.splits if_splits)
  have same: "\<forall>item \<in> set items. the_cell h' item = the_cell h item"
    using allc keeps_the_cell [OF assms(1)] by (auto simp: list_all_iff)
  then have "list_all (\<lambda>item. the_cell h' item \<noteq> None) items"
    using allc by (simp add: list_all_iff)
  moreover have "map (\<lambda>item. the (the_cell h' item)) items = map (\<lambda>item. the (the_cell h item)) items"
    using same by simp
  ultimately show ?thesis
    using keeps_get [OF assms(1) nb] keeps_get [OF assms(1) li] n
    by (simp add: read_notebook_def)
qed

lemma for_loop_run:
  fixes body :: "pyval \<Rightarrow> 's \<Rightarrow> heap \<Rightarrow> (error + 's) \<times> heap"
  assumes l: "heap_get h0 l = Some (OList items)"
    and fresh: "length h0 \<le> it"
    and P_next: "\<And>i s h x. P i s h \<Longrightarrow> P i s (h[it := x])"
    and body: "\<And>i s h. i < length items \<Longrightarrow> keeps h0 h \<Longrightarrow> it < length h \<Longrightarrow>
        h ! it = OIter l (Suc i) \<Longrightarrow> P i s h \<Longrightarrow>
        \<exists>h'. body (items ! i) s h = (g (items ! i) s, h') \<and> keeps h0 h' \<and> it < length h' \<and>
             h' ! it = OIter l (Suc i) \<and> (\<forall>s'. g (items ! i) s = Inr s' \<longrightarrow> P (Suc i) s' h')"
  shows "keeps h0 h \<Longrightarrow> it < length h \<Longrightarrow> h ! it = OIter l i \<Longrightarrow> P i s h \<Longrightarrow>
         i \<le> length items \<Longrightarrow> length items - i < fuel \<Longrightarrow>
         \<exists>h'. for_loop fuel body it s h = Some (run g (drop i items) s, h') \<and> keeps h0 h' \<and>
              (\<forall>s'. run g (drop i items) s = Inr s' \<longrightarrow> P (length items) s' h')"
proof (induction fuel arbitrary: h i s)
  case 0
  then show ?case by simp
next
  case (Suc fuel)
  have it: "heap_get h it = Some (OIter l i)"
    using Suc.prems(2,3) by (simp add: heap_get_def)
  have li: "heap_get h l = Some (OList items)"
    using keeps_get [OF Suc.prems(1) l] .
  show ?case
  proof (cases "i < length items")
    case False
    then have "i = length items" using Suc.prems(5) by simp
    then show ?thesis
      using it li Suc.prems(1,4) by (simp add: iter_next_def)
  next
    case True
    let ?h1 = "h[it := OIter l (Suc i)]"
    have nxt: "iter_next h it = (Some (items ! i), ?h1)"
      using it li True by (simp add: iter_next_def)
    have k1: "keeps h0 ?h1" using Suc.prems(1) fresh by (rule keeps_update)
    have len1: "it < length ?h1" using Suc.prems(2) by simp
    have at1: "?h1 ! it = OIter l (Suc i)" using Suc.prems(2) by simp
    have P1: "P i s ?h1" using Suc.prems(4) by (rule P_next)
    from body [OF True k1 len1 at1 P1] obtain h2 where
      b: "body (items ! i) s ?h1 = (g (items ! i) s, h2)" and k2: "keeps h0 h2"
      and len2: "it < length h2" and at2: "h2 ! it = OIter l (Suc i)"
      and P2: "\<forall>s'. g (items ! i) s = Inr s' \<longrightarrow> P (Suc i) s' h2"
      by blast
    have dr: "drop i items = items ! i # drop (Suc i) items"
      using True by (simp add: Cons_nth_drop_Suc)
    show ?thesis
    proof (cases "g (items ! i) s")
      case (Inl e)
      then show ?thesis
        using nxt b k2 by (simp add: dr)
    next
      case (Inr s')
      have "\<exists>h'. for_loop fuel body it s' h2 = Some (run g (drop (Suc i) items) s', h') \<and>
          keeps h0 h' \<and> (\<forall>s''. run g (drop (Suc i) items) s' = Inr s'' \<longrightarrow> P (length items) s'' h')"
        using k2 len2 at2 P2 Inr True Suc.prems(6) by (intro Suc.IH) auto
      then show ?thesis
        using nxt b Inr by (simp add: dr)
    qed
  qed
qed


lemma for_notebook_run:
  fixes body :: "pyval \<Rightarrow> 's \<Rightarrow> heap \<Rightarrow> (error + 's) \<times> heap"
  assumes k: "keeps h0 h"
    and nb: "heap_get h0 self = Some (ONotebook v (Ref l))"
    and l: "heap_get h0 l = Some (OList items)"
    and P_next: "\<And>i s h' x. P i s h' \<Longrightarrow> P i s (h'[length h := x])"
    and body: "\<And>i s h'. i < length items \<Longrightarrow> keeps h0 h' \<Longrightarrow> length h < length h' \<Longrightarrow>
        h' ! length h = OIter l (Suc i) \<Longrightarrow> P i s h' \<Longrightarrow>
        \<exists>h''. body (items ! i) s h' = (g (items ! i) s, h'') \<and> keeps h0 h'' \<and>
             length h < length h'' \<and> h'' ! length h = OIter l (Suc i) \<and>
             (\<forall>s'. g (items ! i) s = Inr s' \<longrightarrow> P (Suc i) s' h'')"
    and P0: "P 0 s (h @ [OIter l 0])"
    and fuel: "length items < fuel"
  shows "\<exists>h'. for_notebook fuel body self s h = Some (run g items s, h') \<and> keeps h0 h' \<and>
              (\<forall>s'. run g items s = Inr s' \<longrightarrow> P (length items) s' h')"
proof -
  have it: "Notebook_iter h self = (Inr (length h), h @ [OIter l 0])"
    using keeps_get [OF k nb] keeps_get [OF k l] by (simp add: Notebook_iter_def alloc_def)
  have fresh: "length h0 \<le> length h" using k by (rule keeps_length)
  have "\<exists>h'. for_loop fuel body (length h) s (h @ [OIter l 0]) =
          Some (run g (drop 0 items) s, h') \<and> keeps h0 h' \<and>
          (\<forall>s'. run g (drop 0 items) s = Inr s' \<longrightarrow> P (length items) s' h')"
  proof (rule for_loop_run [where P = P, OF l fresh P_next])
    fix i s h'
    assume "i < length items" "keeps h0 h'" "length h < length h'"
      "h' ! length h = OIter l (Suc i)" "P i s h'"
    then show "\<exists>h''. body (items ! i) s h' = (g (items ! i) s, h'') \<and> keeps h0 h'' \<and>
             length h < length h'' \<and> h'' ! length h = OIter l (Suc i) \<and>
             (\<forall>s'. g (items ! i) s = Inr s' \<longrightarrow> P (Suc i) s' h'')"
      by (rule body)
  next
    show "keeps h0 (h @ [OIter l 0])" using k by (rule keeps_append)
  qed (use P0 fuel in simp_all)
  then show ?thesis by (simp add: for_notebook_def it)
qed

lemma run_collect: "run (\<lambda>item seen. Inr (seen @ [item])) items seen = Inr (seen @ items)"
  by (induction items arbitrary: seen) simp_all

lemma read_notebookD:
  assumes "read_notebook h self = Some n"
  obtains l items where
    "heap_get h self = Some (ONotebook (version n) (Ref l))"
    "heap_get h l = Some (OList items)"
    "\<forall>item \<in> set items. \<exists>c. the_cell h item = Some c"
    "cells n = map (\<lambda>item. the (the_cell h item)) items"
  using assms
  by (auto simp: read_notebook_def list_all_iff
      split: option.splits pyobj.splits pyval.splits if_splits)

lemma run_cells:
  assumes "\<forall>item \<in> set items. \<exists>c. the_cell h item = Some c"
  shows "run (\<lambda>item s. case the_cell h item of None \<Rightarrow> d s | Some c \<Rightarrow> f c s) items s =
         run f (map (\<lambda>item. the (the_cell h item)) items) s"
  using assms by (induction items arbitrary: s) (auto split: sum.splits)

lemma run_to_py_percent: "run to_py_percent_cell cs s = to_py_percent_loop cs s"
  by (induction cs arbitrary: s) (simp_all split: sum.splits)

lemma run_outline: "run outline_cell cs s = outline_loop cs s"
  by (induction cs arbitrary: s) (simp_all split: sum.splits)

lemma to_py_percent_on_run:
  assumes "read_notebook h self = Some n" and "length (cells n) < fuel"
  shows "\<exists>h'. to_py_percent_on fuel h self = Some (to_py_percent n, h') \<and> keeps h h'"
proof -
  from assms(1) obtain l items where
    nb: "heap_get h self = Some (ONotebook (version n) (Ref l))" and
    li: "heap_get h l = Some (OList items)" and
    allc: "\<forall>item \<in> set items. \<exists>c. the_cell h item = Some c" and
    cs: "cells n = map (\<lambda>item. the (the_cell h item)) items"
    by (rule read_notebookD)
  have fuel: "length items < fuel" using assms(2) cs by simp
  let ?g = "\<lambda>item s. case the_cell h item of None \<Rightarrow> Inr s | Some c \<Rightarrow> to_py_percent_cell c s"
  have "\<exists>h'. for_notebook fuel to_py_percent_body self [] h = Some (run ?g items [], h') \<and>
          keeps h h' \<and> (\<forall>s'. run ?g items [] = Inr s' \<longrightarrow> True)"
  proof (rule for_notebook_run [where P = "\<lambda>i s h. True", OF keeps_refl nb li _ _ _ fuel])
    fix i s h'
    assume i: "i < length items" and k: "keeps h h'" and len: "length h < length h'"
      and at: "h' ! length h = OIter l (Suc i)"
    from allc nth_mem [OF i] obtain c where c: "the_cell h (items ! i) = Some c" by blast
    then have "the_cell h' (items ! i) = Some c" using k by (rule keeps_the_cell [rotated])
    then show "\<exists>h''. to_py_percent_body (items ! i) s h' = (?g (items ! i) s, h'') \<and>
        keeps h h'' \<and> length h < length h'' \<and> h'' ! length h = OIter l (Suc i) \<and>
        (\<forall>s'. ?g (items ! i) s = Inr s' \<longrightarrow> True)"
      using c k len at by (simp add: to_py_percent_body_def)
  qed simp_all
  then obtain h' where
    "for_notebook fuel to_py_percent_body self [] h = Some (to_py_percent_loop (cells n) [], h')"
    "keeps h h'"
    by (auto simp: run_cells [OF allc] run_to_py_percent cs)
  then show ?thesis
    by (auto simp: to_py_percent_on_def to_py_percent_def split: sum.splits)
qed

lemma outline_on_run:
  assumes "read_notebook h self = Some n" and "length (cells n) < fuel"
  shows "\<exists>h'. outline_on fuel h self = Some (outline n, h') \<and> keeps h h'"
proof -
  from assms(1) obtain l items where
    nb: "heap_get h self = Some (ONotebook (version n) (Ref l))" and
    li: "heap_get h l = Some (OList items)" and
    allc: "\<forall>item \<in> set items. \<exists>c. the_cell h item = Some c" and
    cs: "cells n = map (\<lambda>item. the (the_cell h item)) items"
    by (rule read_notebookD)
  have fuel: "length items < fuel" using assms(2) cs by simp
  let ?g = "\<lambda>item s. case the_cell h item of None \<Rightarrow> Inl AttributeError | Some c \<Rightarrow> outline_cell c s"
  let ?t = "ascii ''Jupyter Notebook v'' @ version n @ [10]"
  have "\<exists>h'. for_notebook fuel outline_body self ?t h = Some (run ?g items ?t, h') \<and>
          keeps h h' \<and> (\<forall>s'. run ?g items ?t = Inr s' \<longrightarrow> True)"
  proof (rule for_notebook_run [where P = "\<lambda>i s h. True", OF keeps_refl nb li _ _ _ fuel])
    fix i s h'
    assume i: "i < length items" and k: "keeps h h'" and len: "length h < length h'"
      and at: "h' ! length h = OIter l (Suc i)"
    from allc nth_mem [OF i] obtain c where c: "the_cell h (items ! i) = Some c" by blast
    then have "the_cell h' (items ! i) = Some c" using k by (rule keeps_the_cell [rotated])
    then show "\<exists>h''. outline_body (items ! i) s h' = (?g (items ! i) s, h'') \<and>
        keeps h h'' \<and> length h < length h'' \<and> h'' ! length h = OIter l (Suc i) \<and>
        (\<forall>s'. ?g (items ! i) s = Inr s' \<longrightarrow> True)"
      using c k len at by (simp add: outline_body_def)
  qed simp_all
  then obtain h' where
    "for_notebook fuel outline_body self ?t h = Some (outline_loop (cells n) ?t, h')"
    "keeps h h'"
    by (auto simp: run_cells [OF allc] run_outline cs)
  then show ?thesis
    using nb by (auto simp: outline_on_def outline_def split: sum.splits)
qed

lemma dict_setitem_frame:
  "length (dict_setitem h d k v) = length h \<and>
   (\<forall>a. a \<noteq> d \<longrightarrow> dict_setitem h d k v ! a = h ! a) \<and>
   (\<forall>kvs. heap_get h d = Some (ODict kvs) \<longrightarrow>
      heap_get (dict_setitem h d k v) d = Some (ODict (dict_set kvs k v)))"
  by (auto simp: dict_setitem_def heap_get_def split: option.splits pyobj.splits if_splits)

lemma serialize_fill_frame:
  assumes "serialize_fill c d h = (r, h')"
  shows "length h \<le> length h' \<and> (\<forall>a < length h. a \<noteq> d \<longrightarrow> h' ! a = h ! a)"
  using assms dict_setitem_frame
  by (auto simp: serialize_fill_def alloc_def nth_append split: if_splits option.splits)

lemma serialize_fill_result:
  assumes "serialize_fill c d h = (r, h')"
  shows "case r of Inl e \<Rightarrow> serialize_cell c = Inl e | Inr u \<Rightarrow> \<exists>j. serialize_cell c = Inr j"
  using assms
  by (auto simp: serialize_fill_def serialize_cell_def alloc_def Let_def
      split: if_splits option.splits)

lemma entry_at_read:
  assumes "entry_at h b d c"
  shows "\<exists>e. serialize_cell c = Inr e \<and> read_json 2 h (Ref d) = Some e"
  using assms
  by (auto simp: entry_at_def serialize_cell_def eval_nat_numeral split: if_splits)

lemma entry_at_stable:
  assumes "entry_at h b d c"
    and "\<And>a x. b < a \<Longrightarrow> heap_get h a = Some x \<Longrightarrow> heap_get h' a = Some x"
  shows "entry_at h' b d c"
proof -
  from assms(1) have d: "b < d"
    by (simp add: entry_at_def)
  show ?thesis
  proof (cases "cls c = CodeCell")
    case True
    with assms(1) obtain m n outputs where
      "b < m" "heap_get h m = Some (ODict [])"
      "execution_count c = Some n" "b < outputs" "heap_get h outputs = Some (OList [])"
      "heap_get h d =
         Some (ODict [(ascii ''cell_type'', Imm (JStr (ascii ''code''))),
                      (ascii ''id'', Imm (cell_id c)), (ascii ''metadata'', Ref m),
                      (ascii ''source'', Imm (source c)),
                      (ascii ''execution_count'', Imm n),
                      (ascii ''outputs'', Ref outputs)])"
      by (auto simp: entry_at_def)
    then show ?thesis
      using True d assms(2) unfolding entry_at_def by (auto intro!: exI [of _ m])
  next
    case False
    with assms(1) obtain m where
      "b < m" "heap_get h m = Some (ODict [])"
      "heap_get h d =
         Some (ODict [(ascii ''cell_type'',
                       if cls c = MarkdownCell then Imm (JStr (ascii ''markdown'')) else Imm (JInt 0)),
                      (ascii ''id'', Imm (cell_id c)), (ascii ''metadata'', Ref m),
                      (ascii ''source'', Imm (source c))])"
      by (auto simp: entry_at_def split: if_splits)
    then show ?thesis
      using False d assms(2) unfolding entry_at_def by (auto intro!: exI [of _ m])
  qed
qed


lemma serialize_body_step:
  assumes c: "the_cell H item = Some c"
    and s: "heap_get H s = Some (ODict skvs)" and cells: "map_of skvs (ascii ''cells'') = Some (Ref l)"
    and l: "heap_get H l = Some (OList xs)"
    and ne: "l \<noteq> s"
    and b: "b < length H" and lb: "l \<le> b"
  shows "\<exists>H'. serialize_body item s H =
            (case serialize_cell c of Inl e \<Rightarrow> Inl e | Inr j \<Rightarrow> Inr s, H') \<and>
          length H \<le> length H' \<and> (\<forall>a < length H. a \<noteq> l \<longrightarrow> H' ! a = H ! a) \<and>
          (\<forall>j. serialize_cell c = Inr j \<longrightarrow>
             heap_get H' l = Some (OList (xs @ [Ref (Suc (length H))])) \<and>
             entry_at H' b (Suc (length H)) c)"
proof -
  have sl: "s < length H" "l < length H" and sat: "H ! s = ODict skvs" and lat: "H ! l = OList xs"
    using s l by (auto simp: heap_get_def split: if_splits)
  let ?init = "[(ascii ''cell_type'', Imm (JInt 0)), (ascii ''id'', Imm (cell_id c)),
              (ascii ''metadata'', Ref (length H)), (ascii ''source'', Imm (source c))]"
  let ?Hn = "H @ [ODict [], ODict ?init]"
  let ?d = "Suc (length H)"
  obtain r h3 where fill: "serialize_fill c ?d ?Hn = (r, h3)"
    by (cases "serialize_fill c ?d ?Hn")
  have body: "serialize_body item s H =
      (case r of
         Inl e \<Rightarrow> (Inl e, h3)
       | Inr u \<Rightarrow>
           (case heap_get h3 s of
              Some (ODict kvs) \<Rightarrow>
                (case map_of kvs (ascii ''cells'') of
                   Some (Ref l) \<Rightarrow> (Inr s, list_append h3 l (Ref ?d))
                 | _ \<Rightarrow> (Inl KeyError, h3))
            | _ \<Rightarrow> (Inl TypeError, h3)))"
    by (simp add: serialize_body_def c alloc_def fill
        split: sum.splits option.splits pyobj.splits pyval.splits)
  have fr: "length ?Hn \<le> length h3" "\<forall>a < length ?Hn. a \<noteq> ?d \<longrightarrow> h3 ! a = ?Hn ! a"
    using serialize_fill_frame [OF fill] by simp_all
  have old: "\<forall>a < length H. h3 ! a = H ! a"
    using fr(2) by (simp add: nth_append)
  show ?thesis
  proof (cases r)
    case (Inl e)
    then have "serialize_cell c = Inl e" using serialize_fill_result [OF fill] by simp
    then show ?thesis
      using Inl body fr(1) old by auto
  next
    case (Inr u)
    then obtain j where j: "serialize_cell c = Inr j"
      using serialize_fill_result [OF fill] by auto
    have s3: "heap_get h3 s = Some (ODict skvs)" and l3: "heap_get h3 l = Some (OList xs)"
      using old sl sat lat fr(1) by (simp_all add: heap_get_def)
    let ?H' = "h3[l := OList (xs @ [Ref ?d])]"
    have res: "serialize_body item s H = (Inr s, ?H')"
      using body Inr s3 cells l3 by (simp add: list_append_def)
    have len: "length H \<le> length ?H'" using fr(1) by simp
    have same: "\<forall>a < length H. a \<noteq> l \<longrightarrow> ?H' ! a = H ! a"
      using old by simp
    have lnew: "heap_get ?H' l = Some (OList (xs @ [Ref ?d]))"
      using sl fr(1) by (simp add: heap_get_def)
    have above: "\<And>a x. l \<noteq> a \<Longrightarrow> heap_get h3 a = Some x \<Longrightarrow> heap_get ?H' a = Some x"
      by (auto simp: heap_get_def split: if_splits)
    have e3: "entry_at h3 b ?d c"
    proof (cases "cls c = MarkdownCell")
      case True
      then have "h3 = ?Hn[?d := ODict (dict_set ?init (ascii ''cell_type'') (Imm (JStr (ascii ''markdown''))))]"
        using fill by (simp add: serialize_fill_def dict_setitem_def heap_get_def nth_append)
      then have "heap_get h3 (length H) = Some (ODict [])"
        "heap_get h3 ?d =
           Some (ODict [(ascii ''cell_type'', Imm (JStr (ascii ''markdown''))),
                        (ascii ''id'', Imm (cell_id c)), (ascii ''metadata'', Ref (length H)),
                        (ascii ''source'', Imm (source c))])"
        by (simp_all add: heap_get_def nth_append)
      then show ?thesis
        unfolding entry_at_def using True b by (intro conjI exI [of _ "length H"]) simp_all
    next
      case nm: False
      show ?thesis
      proof (cases "cls c = CodeCell")
        case True
        then obtain n where n: "execution_count c = Some n"
          using fill Inr nm by (auto simp: serialize_fill_def split: option.splits)
        let ?filled = "[(ascii ''cell_type'', Imm (JStr (ascii ''code''))),
                    (ascii ''id'', Imm (cell_id c)), (ascii ''metadata'', Ref (length H)),
                    (ascii ''source'', Imm (source c)), (ascii ''execution_count'', Imm n)]"
        have "h3 = (?Hn[?d := ODict ?filled] @ [OList []])
                     [?d := ODict (?filled @ [(ascii ''outputs'', Ref (Suc (Suc (length H))))])]"
          using fill nm True n
          by (simp add: serialize_fill_def alloc_def dict_setitem_def heap_get_def nth_append)
        then have "heap_get h3 (length H) = Some (ODict [])"
          "heap_get h3 (Suc (Suc (length H))) = Some (OList [])"
          "heap_get h3 ?d = Some (ODict (?filled @ [(ascii ''outputs'', Ref (Suc (Suc (length H))))]))"
          by (simp_all add: heap_get_def nth_append)
        then show ?thesis
          unfolding entry_at_def using True nm b n
          by (intro conjI exI [of _ "length H"]) (simp_all add: exI [of _ "Suc (Suc (length H))"])
      next
        case False
        then have "h3 = ?Hn" using fill nm by (simp add: serialize_fill_def)
        then have "heap_get h3 (length H) = Some (ODict [])" "heap_get h3 ?d = Some (ODict ?init)"
          by (simp_all add: heap_get_def nth_append)
        then show ?thesis
          unfolding entry_at_def using False nm b by (intro conjI exI [of _ "length H"]) simp_all
      qed
    qed
    have "entry_at ?H' b ?d c"
    proof (rule entry_at_stable [OF e3])
      fix a x assume "b < a" "heap_get h3 a = Some x"
      then show "heap_get ?H' a = Some x"
        using lb above [of a x] by auto
    qed
    then show ?thesis
      using res j len same lnew by auto
  qed
qed


lemma keeps_change:
  assumes "keeps h H" and "length H \<le> length H'"
    and "\<forall>a < length H. a \<noteq> l \<longrightarrow> H' ! a = H ! a" and "length h \<le> l"
  shows "keeps h H'"
proof -
  have len: "length h \<le> length H" using assms(1) by (rule keeps_length)
  have "take (length h) H' = take (length h) H"
  proof (rule nth_equalityI)
    show "length (take (length h) H') = length (take (length h) H)"
      using len assms(2) by simp
  next
    fix a assume "a < length (take (length h) H')"
    then have a: "a < length h" by simp
    then have "H' ! a = H ! a" using assms(3,4) len by auto
    then show "take (length h) H' ! a = take (length h) H ! a" using a by simp
  qed
  then show ?thesis using assms(1) by (simp add: keeps_def)
qed

lemma entries_read:
  assumes "list_all2 (entry_at H b) ds cs"
  shows "\<exists>es. serialize_loop cs acc = Inr (acc @ es) \<and>
              those (map (read_json 2 H) (map Ref ds)) = Some es"
  using assms
proof (induction ds cs arbitrary: acc rule: list_all2_induct)
  case Nil
  then show ?case by simp
next
  case (Cons d ds c cs)
  from entry_at_read [OF Cons.hyps(1)] obtain e where
    e: "serialize_cell c = Inr e" "read_json 2 H (Ref d) = Some e" by blast
  from Cons.IH [of "acc @ [e]"] obtain es where
    es: "serialize_loop cs (acc @ [e]) = Inr ((acc @ [e]) @ es)"
      "those (map (read_json 2 H) (map Ref ds)) = Some es" by blast
  have "serialize_loop (c # cs) acc = Inr (acc @ (e # es))" using e es by simp
  moreover have "those (map (read_json 2 H) (map Ref (d # ds))) = Some (e # es)"
    using e es by simp
  ultimately show ?case by blast
qed

lemma run_serialize:
  "run (\<lambda>c s. case serialize_cell c of Inl e \<Rightarrow> Inl e | Inr j \<Rightarrow> Inr s) cs (s :: addr) =
     (case serialize_loop cs acc of Inl e \<Rightarrow> Inl e | Inr es \<Rightarrow> Inr s)"
proof (induction cs arbitrary: acc)
  case Nil
  then show ?case by simp
next
  case (Cons c cs)
  show ?case
  proof (cases "serialize_cell c")
    case (Inl e)
    then show ?thesis by simp
  next
    case (Inr j)
    then show ?thesis using Cons.IH [of "acc @ [j]"] by simp
  qed
qed

lemma serialize_loop_on:
  assumes nb: "heap_get h self = Some (ONotebook v (Ref l))"
    and li: "heap_get h l = Some (OList items)"
    and allc: "\<forall>item \<in> set items. \<exists>c. the_cell h item = Some c"
    and fuel: "length items < fuel"
  shows "\<exists>H'. for_notebook fuel serialize_body self (Suc (Suc (length h)))
              (h @ [OList [], ODict [],
                    ODict [(ascii ''cells'', Ref (length h)),
                           (ascii ''metadata'', Ref (Suc (length h))),
                           (ascii ''nbformat'', Imm (JInt major)),
                           (ascii ''nbformat_minor'', Imm (JInt minor))]]) =
           Some (case serialize_loop (map (\<lambda>item. the (the_cell h item)) items) [] of
                   Inl e \<Rightarrow> Inl e | Inr es \<Rightarrow> Inr (Suc (Suc (length h))), H') \<and>
         keeps h H' \<and>
         (\<forall>es. serialize_loop (map (\<lambda>item. the (the_cell h item)) items) [] = Inr es \<longrightarrow>
            read_json 4 H' (Ref (Suc (Suc (length h)))) =
              Some (JObj [(ascii ''cells'', JList es), (ascii ''metadata'', JObj []),
                          (ascii ''nbformat'', JInt major),
                          (ascii ''nbformat_minor'', JInt minor)]))"
proof -
  let ?cl = "length h" and ?m = "Suc (length h)" and ?s = "Suc (Suc (length h))"
  let ?skvs = "[(ascii ''cells'', Ref ?cl), (ascii ''metadata'', Ref ?m),
                (ascii ''nbformat'', Imm (JInt major)),
                (ascii ''nbformat_minor'', Imm (JInt minor))]"
  let ?h3 = "h @ [OList [], ODict [], ODict ?skvs]"
  let ?it = "length ?h3"
  let ?cs = "map (\<lambda>item. the (the_cell h item)) items"
  let ?g = "\<lambda>item s. case the_cell h item of None \<Rightarrow> Inl AttributeError
             | Some c \<Rightarrow> (case serialize_cell c of Inl e \<Rightarrow> Inl e | Inr j \<Rightarrow> Inr s)"
  define P where "P = (\<lambda>i s' H. s' = ?s \<and> heap_get H ?s = Some (ODict ?skvs) \<and>
      heap_get H ?m = Some (ODict []) \<and>
      (\<exists>ds. heap_get H ?cl = Some (OList (map Ref ds)) \<and>
            list_all2 (entry_at H ?it) ds (take i ?cs)))"
  have k3: "keeps h ?h3" by (rule keeps_append) simp
  have "\<exists>H'. for_notebook fuel serialize_body self ?s ?h3 = Some (run ?g items ?s, H') \<and>
          keeps h H' \<and> (\<forall>s'. run ?g items ?s = Inr s' \<longrightarrow> P (length items) s' H')"
  proof (rule for_notebook_run [where P = P, OF k3 nb li _ _ _ fuel])
    fix i s' H x
    assume p: "P i s' H"
    then obtain ds where s': "s' = ?s" and sd: "heap_get H ?s = Some (ODict ?skvs)"
      and md: "heap_get H ?m = Some (ODict [])"
      and ds: "heap_get H ?cl = Some (OList (map Ref ds))"
        "list_all2 (entry_at H ?it) ds (take i ?cs)" by (auto simp: P_def)
    have get: "\<And>a y. a \<noteq> ?it \<Longrightarrow> heap_get H a = Some y \<Longrightarrow> heap_get (H[?it := x]) a = Some y"
      by (auto simp: heap_get_def split: if_splits)
    have "list_all2 (entry_at (H[?it := x]) ?it) ds (take i ?cs)"
      using ds(2)
    proof (rule list_all2_mono)
      fix d c assume "entry_at H ?it d c"
      then show "entry_at (H[?it := x]) ?it d c"
        by (rule entry_at_stable) (use get in auto)
    qed
    moreover have "heap_get (H[?it := x]) ?s = Some (ODict ?skvs)"
      by (rule get [OF _ sd]) simp
    moreover have "heap_get (H[?it := x]) ?m = Some (ODict [])"
      by (rule get [OF _ md]) simp
    moreover have "heap_get (H[?it := x]) ?cl = Some (OList (map Ref ds))"
      by (rule get [OF _ ds(1)]) simp
    ultimately show "P i s' (H[?it := x])"
      unfolding P_def using s' by blast
  next
    fix i s' H
    assume i: "i < length items" and k: "keeps h H" and len: "?it < length H"
      and at: "H ! ?it = OIter l (Suc i)" and p: "P i s' H"
    from p obtain ds where s': "s' = ?s" and sd: "heap_get H ?s = Some (ODict ?skvs)"
      and md: "heap_get H ?m = Some (ODict [])"
      and ds: "heap_get H ?cl = Some (OList (map Ref ds))"
        "list_all2 (entry_at H ?it) ds (take i ?cs)" by (auto simp: P_def)
    from allc nth_mem [OF i] obtain c where c: "the_cell h (items ! i) = Some c" by blast
    then have cH: "the_cell H (items ! i) = Some c" using k by (rule keeps_the_cell [rotated])
    have ci: "?cs ! i = c" using c i by simp
    have cells: "map_of ?skvs (ascii ''cells'') = Some (Ref ?cl)" by simp
    from serialize_body_step [OF cH sd cells ds(1) _ len, of ] obtain H' where
      b: "serialize_body (items ! i) ?s H =
            (case serialize_cell c of Inl e \<Rightarrow> Inl e | Inr j \<Rightarrow> Inr ?s, H')"
      and l': "length H \<le> length H'"
      and same: "\<forall>a < length H. a \<noteq> ?cl \<longrightarrow> H' ! a = H ! a"
      and new: "\<forall>j. serialize_cell c = Inr j \<longrightarrow>
             heap_get H' ?cl = Some (OList (map Ref ds @ [Ref (Suc (length H))])) \<and>
             entry_at H' ?it (Suc (length H)) c"
      by auto
    have get: "\<And>a y. a \<noteq> ?cl \<Longrightarrow> heap_get H a = Some y \<Longrightarrow> heap_get H' a = Some y"
      using same l' by (auto simp: heap_get_def split: if_splits)
    have k': "keeps h H'" using k l' same by (rule keeps_change) simp
    have at': "H' ! ?it = OIter l (Suc i)" using same len at by simp
    have P': "\<forall>s''. ?g (items ! i) s' = Inr s'' \<longrightarrow> P (Suc i) s'' H'"
    proof (intro allI impI)
      fix s'' assume "?g (items ! i) s' = Inr s''"
      then obtain j where j: "serialize_cell c = Inr j" and s'': "s'' = ?s"
        using c s' by (auto split: sum.splits)
      have old: "list_all2 (entry_at H' ?it) ds (take i ?cs)"
        using ds(2)
      proof (rule list_all2_mono)
        fix d c' assume "entry_at H ?it d c'"
        then show "entry_at H' ?it d c'"
          by (rule entry_at_stable) (use get in auto)
      qed
      have tk: "take (Suc i) ?cs = take i ?cs @ [c]"
        using i ci by (simp add: take_Suc_conv_app_nth del: map_append)
      have "list_all2 (entry_at H' ?it) (ds @ [Suc (length H)]) (take (Suc i) ?cs)"
        unfolding tk using old new j by (simp add: list_all2_appendI)
      moreover have "heap_get H' ?cl = Some (OList (map Ref (ds @ [Suc (length H)])))"
        using new j by simp
      moreover have "heap_get H' ?s = Some (ODict ?skvs)"
        by (rule get [OF _ sd]) simp
      moreover have "heap_get H' ?m = Some (ODict [])"
        by (rule get [OF _ md]) simp
      ultimately show "P (Suc i) s'' H'"
        unfolding P_def using s'' by blast
    qed
    show "\<exists>H''. serialize_body (items ! i) s' H = (?g (items ! i) s', H'') \<and> keeps h H'' \<and>
        ?it < length H'' \<and> H'' ! ?it = OIter l (Suc i) \<and>
        (\<forall>s''. ?g (items ! i) s' = Inr s'' \<longrightarrow> P (Suc i) s'' H'')"
      unfolding s' using b k' l' len at' P' [unfolded s'] c by (intro exI [of _ H']) simp
  next
    show "P 0 ?s (?h3 @ [OIter l 0])"
      unfolding P_def by (simp add: heap_get_def nth_append exI [of _ "[]"])
  qed
  then obtain H' where
    run: "for_notebook fuel serialize_body self ?s ?h3 = Some (run ?g items ?s, H')"
    and k': "keeps h H'" and P': "\<forall>s'. run ?g items ?s = Inr s' \<longrightarrow> P (length items) s' H'"
    by blast
  have g: "run ?g items ?s = (case serialize_loop ?cs [] of Inl e \<Rightarrow> Inl e | Inr es \<Rightarrow> Inr ?s)"
    by (simp add: run_cells [OF allc] run_serialize [where acc = "[]"])
  have "read_json 4 H' (Ref ?s) =
      Some (JObj [(ascii ''cells'', JList es), (ascii ''metadata'', JObj []),
                  (ascii ''nbformat'', JInt major), (ascii ''nbformat_minor'', JInt minor)])"
    if es: "serialize_loop ?cs [] = Inr es" for es
  proof -
    have "P (length items) ?s H'" using P' g es by simp
    then obtain ds where sd: "heap_get H' ?s = Some (ODict ?skvs)"
      and md: "heap_get H' ?m = Some (ODict [])"
      and ds: "heap_get H' ?cl = Some (OList (map Ref ds))"
        "list_all2 (entry_at H' ?it) ds ?cs" by (auto simp: P_def)
    from entries_read [OF ds(2), of "[]"] es
    have "those (map (read_json 2 H') (map Ref ds)) = Some es" by auto
    then show ?thesis
      using sd md ds(1) by (simp add: eval_nat_numeral)
  qed
  then show ?thesis using run k' g by auto
qed


lemma serialize_on_run:
  assumes "read_notebook h self = Some n" and "length (cells n) < fuel"
  shows "\<exists>r h'. serialize_on fuel h self = Some (r, h') \<and> keeps h h' \<and>
           (case r of
              Inl e \<Rightarrow> serialize n = Inl e
            | Inr v \<Rightarrow> \<exists>j. read_json 4 h' v = Some j \<and> serialize n = Inr j)"
proof -
  from assms(1) obtain l items where
    nb: "heap_get h self = Some (ONotebook (version n) (Ref l))" and
    li: "heap_get h l = Some (OList items)" and
    allc: "\<forall>item \<in> set items. \<exists>c. the_cell h item = Some c" and
    cs: "cells n = map (\<lambda>item. the (the_cell h item)) items"
    by (rule read_notebookD)
  have fuel: "length items < fuel" using assms(2) cs by simp
  show ?thesis
  proof (cases "\<exists>a b. py_split 46 (version n) = [a, b]")
    case False
    then have "serialize_on fuel h self = Some (Inl ValueError, h)"
      using nb by (auto simp: serialize_on_def split: list.splits)
    moreover have "serialize n = Inl ValueError"
      using False by (auto simp: serialize_def split: list.splits)
    ultimately show ?thesis by simp
  next
    case True
    then obtain a b where ab: "py_split 46 (version n) = [a, b]" by blast
    show ?thesis
    proof (cases "py_int a")
      case (Inl e)
      then have "serialize_on fuel h self = Some (Inl e, h)"
        using nb ab by (simp add: serialize_on_def)
      moreover have "serialize n = Inl e"
        using Inl by (simp add: serialize_parts [OF ab])
      ultimately show ?thesis by simp
    next
      case major: (Inr major)
      show ?thesis
      proof (cases "py_int b")
        case (Inl e)
        then have "serialize_on fuel h self = Some (Inl e, h)"
          using nb ab major by (simp add: serialize_on_def)
        moreover have "serialize n = Inl e"
          using Inl major by (simp add: serialize_parts [OF ab])
        ultimately show ?thesis by simp
      next
        case minor: (Inr minor)
        let ?s = "Suc (Suc (length h))"
        from serialize_loop_on [OF nb li allc fuel, of major minor] obtain H' where
          run: "for_notebook fuel serialize_body self ?s
              (h @ [OList [], ODict [],
                    ODict [(ascii ''cells'', Ref (length h)),
                           (ascii ''metadata'', Ref (Suc (length h))),
                           (ascii ''nbformat'', Imm (JInt major)),
                           (ascii ''nbformat_minor'', Imm (JInt minor))]]) =
             Some (case serialize_loop (cells n) [] of Inl e \<Rightarrow> Inl e | Inr es \<Rightarrow> Inr ?s, H')"
          and k: "keeps h H'"
          and rd: "\<forall>es. serialize_loop (cells n) [] = Inr es \<longrightarrow>
            read_json 4 H' (Ref ?s) =
              Some (JObj [(ascii ''cells'', JList es), (ascii ''metadata'', JObj []),
                          (ascii ''nbformat'', JInt major),
                          (ascii ''nbformat_minor'', JInt minor)])"
          unfolding cs by blast
        show ?thesis
        proof (cases "serialize_loop (cells n) []")
          case (Inl e)
          then have "serialize_on fuel h self = Some (Inl e, H')"
            using nb ab major minor run by (simp add: serialize_on_def alloc_def)
          moreover have "serialize n = Inl e"
            using Inl major minor by (simp add: serialize_parts [OF ab])
          ultimately show ?thesis using k by simp
        next
          case (Inr es)
          then have "serialize_on fuel h self = Some (Inr (Ref ?s), H')"
            using nb ab major minor run by (simp add: serialize_on_def alloc_def)
          moreover have "serialize n =
              Inr (JObj [(ascii ''cells'', JList es), (ascii ''metadata'', JObj []),
                         (ascii ''nbformat'', JInt major),
                         (ascii ''nbformat_minor'', JInt minor)])"
            using Inr major minor by (simp add: serialize_parts [OF ab])
          ultimately show ?thesis using k rd Inr by simp
        qed
      qed
    qed
  qed
qed

lemma iterate_list:
  assumes "read_notebook h self = Some n" and "length (cells n) < fuel"
  shows "\<exists>l items h'. heap_get h self = Some (ONotebook (version n) (Ref l)) \<and>
           heap_get h l = Some (OList items) \<and>
           iterate fuel h self = Some (Inr items, h') \<and> keeps h h' \<and>
           map (the_cell h) items = map Some (cells n)"
proof -
  from assms(1) obtain l items where
    nb: "heap_get h self = Some (ONotebook (version n) (Ref l))" and
    li: "heap_get h l = Some (OList items)" and
    allc: "\<forall>item \<in> set items. \<exists>c. the_cell h item = Some c" and
    cs: "cells n = map (\<lambda>item. the (the_cell h item)) items"
    by (rule read_notebookD)
  have fuel: "length items < fuel" using assms(2) cs by simp
  have "\<exists>h'. for_notebook fuel collect self [] h =
          Some (run (\<lambda>item seen. Inr (seen @ [item])) items [], h') \<and> keeps h h' \<and>
          (\<forall>s'. run (\<lambda>item seen. Inr (seen @ [item])) items [] = Inr s' \<longrightarrow> True)"
    by (rule for_notebook_run [where P = "\<lambda>i s h. True", OF keeps_refl nb li _ _ _ fuel])
      (simp_all add: collect_def)
  then obtain h' where "iterate fuel h self = Some (Inr items, h')" "keeps h h'"
    by (auto simp: iterate_def run_collect)
  moreover have "map (the_cell h) items = map Some (cells n)"
    using allc cs by auto
  ultimately show ?thesis using nb li by blast
qed

text \<open>
  Claim C9. Let a store hold a notebook at an address, and give the loops more fuel than
  the notebook has cells. Then \<open>serialize\<close>, \<open>to_py_percent\<close> and \<open>outline\<close> return, with
  the results of the functions above; the store they leave keeps every object it had, so
  the notebook read from it is the same: its version, its cell sequence, and the id,
  source and execution count of each cell. What the methods write goes to objects they
  created themselves. Iterating the notebook yields its cells in document order, and
  iterating it again yields the same sequence.
\<close>

theorem methods_keep_notebook:
  assumes "read_notebook h self = Some n" and "length (cells n) < fuel"
  shows "(\<exists>r h'. serialize_on fuel h self = Some (r, h') \<and> keeps h h' \<and>
            read_notebook h' self = Some n \<and>
            (case r of
               Inl e \<Rightarrow> serialize n = Inl e
             | Inr v \<Rightarrow> \<exists>j. read_json 4 h' v = Some j \<and> serialize n = Inr j)) \<and>
         (\<exists>h'. to_py_percent_on fuel h self = Some (to_py_percent n, h') \<and> keeps h h' \<and>
            read_notebook h' self = Some n) \<and>
         (\<exists>h'. outline_on fuel h self = Some (outline n, h') \<and> keeps h h' \<and>
            read_notebook h' self = Some n) \<and>
         (\<exists>items h'. iterate fuel h self = Some (Inr items, h') \<and> keeps h h' \<and>
            read_notebook h' self = Some n \<and>
            map (the_cell h) items = map Some (cells n) \<and>
            (\<exists>h''. iterate fuel h' self = Some (Inr items, h'') \<and> keeps h h''))"
proof (intro conjI)
  from serialize_on_run [OF assms] obtain r h' where
    "serialize_on fuel h self = Some (r, h')" "keeps h h'"
    "case r of Inl e \<Rightarrow> serialize n = Inl e
     | Inr v \<Rightarrow> \<exists>j. read_json 4 h' v = Some j \<and> serialize n = Inr j"
    by blast
  then show "\<exists>r h'. serialize_on fuel h self = Some (r, h') \<and> keeps h h' \<and>
            read_notebook h' self = Some n \<and>
            (case r of
               Inl e \<Rightarrow> serialize n = Inl e
             | Inr v \<Rightarrow> \<exists>j. read_json 4 h' v = Some j \<and> serialize n = Inr j)"
    using keeps_read_notebook [OF _ assms(1)] by blast
next
  show "\<exists>h'. to_py_percent_on fuel h self = Some (to_py_percent n, h') \<and> keeps h h' \<and>
            read_notebook h' self = Some n"
    using to_py_percent_on_run [OF assms] keeps_read_notebook [OF _ assms(1)] by blast
next
  show "\<exists>h'. outline_on fuel h self = Some (outline n, h') \<and> keeps h h' \<and>
            read_notebook h' self = Some n"
    using outline_on_run [OF assms] keeps_read_notebook [OF _ assms(1)] by blast
next
  from iterate_list [OF assms] obtain l items h' where
    nb: "heap_get h self = Some (ONotebook (version n) (Ref l))" and
    li: "heap_get h l = Some (OList items)" and
    it: "iterate fuel h self = Some (Inr items, h')" and k: "keeps h h'" and
    cs: "map (the_cell h) items = map Some (cells n)"
    by blast
  have rn: "read_notebook h' self = Some n" using k assms(1) by (rule keeps_read_notebook)
  from iterate_list [OF rn assms(2)] obtain l' items' h'' where
    nb': "heap_get h' self = Some (ONotebook (version n) (Ref l'))" and
    li': "heap_get h' l' = Some (OList items')" and
    it': "iterate fuel h' self = Some (Inr items', h'')" and k': "keeps h' h''"
    by blast
  have "l' = l" using keeps_get [OF k nb] nb' by simp
  then have "items' = items" using keeps_get [OF k li] li' by simp
  then have "iterate fuel h' self = Some (Inr items, h'')" using it' by simp
  moreover have "keeps h h''" using k k' by (rule keeps_trans)
  ultimately show "\<exists>items h'. iterate fuel h self = Some (Inr items, h') \<and> keeps h h' \<and>
            read_notebook h' self = Some n \<and>
            map (the_cell h) items = map Some (cells n) \<and>
            (\<exists>h''. iterate fuel h' self = Some (Inr items, h'') \<and> keeps h h'')"
    using it k rn cs by blast
qed

lemma hello_heap_read: "read_notebook hello_heap 4 = Some hello_nb"
  by (simp add: read_notebook_def hello_heap_def hello_nb_def heap_get_def the_cell_def)


lemma hello_percent_text: "to_py_percent hello_nb = Inr hello_percent"
  by (simp add: to_py_percent_def to_py_percent_cell_def hello_nb_def hello_cell_def
      print_cell_def goodbye_cell_def hello_print_def hello_percent_def py_strip_def
      py_isspace_def ascii_def)

theorem methods_keep_notebook_witness:
  "read_notebook hello_heap 4 = Some hello_nb \<and> length (cells hello_nb) < 4 \<and>
   (\<exists>v h'. serialize_on 4 hello_heap 4 = Some (Inr v, h') \<and> keeps hello_heap h' \<and>
      read_notebook h' 4 = Some hello_nb \<and> read_json 4 h' v = Some hello_serialized) \<and>
   (\<exists>h'. to_py_percent_on 4 hello_heap 4 = Some (Inr hello_percent, h') \<and>
      keeps hello_heap h' \<and> read_notebook h' 4 = Some hello_nb) \<and>
   (\<exists>h'. outline_on 4 hello_heap 4 = Some (outline hello_nb, h') \<and>
      keeps hello_heap h' \<and> read_notebook h' 4 = Some hello_nb) \<and>
   (\<exists>items h' h''. iterate 4 hello_heap 4 = Some (Inr items, h') \<and> keeps hello_heap h' \<and>
      iterate 4 h' 4 = Some (Inr items, h'') \<and> keeps hello_heap h'')"
proof -
  have len: "length (cells hello_nb) < 4" by (simp add: hello_nb_def)
  note m = methods_keep_notebook [OF hello_heap_read len]
  from m obtain r h' where
    s: "serialize_on 4 hello_heap 4 = Some (r, h')" "keeps hello_heap h'"
      "read_notebook h' 4 = Some hello_nb"
      "case r of Inl e \<Rightarrow> serialize hello_nb = Inl e
       | Inr v \<Rightarrow> \<exists>j. read_json 4 h' v = Some j \<and> serialize hello_nb = Inr j"
    by blast
  from s(4) obtain v where "r = Inr v" "read_json 4 h' v = Some hello_serialized"
    by (cases r) (auto simp: hello_serialize)
  with s have
    "\<exists>v h'. serialize_on 4 hello_heap 4 = Some (Inr v, h') \<and> keeps hello_heap h' \<and>
      read_notebook h' 4 = Some hello_nb \<and> read_json 4 h' v = Some hello_serialized"
    by blast
  moreover from m have "\<exists>h'. to_py_percent_on 4 hello_heap 4 = Some (Inr hello_percent, h') \<and>
      keeps hello_heap h' \<and> read_notebook h' 4 = Some hello_nb"
    by (simp add: hello_percent_text)
  moreover from m have "\<exists>h'. outline_on 4 hello_heap 4 = Some (outline hello_nb, h') \<and>
      keeps hello_heap h' \<and> read_notebook h' 4 = Some hello_nb"
    by blast
  moreover from m have "\<exists>items h' h''. iterate 4 hello_heap 4 = Some (Inr items, h') \<and>
      keeps hello_heap h' \<and> iterate 4 h' 4 = Some (Inr items, h'') \<and> keeps hello_heap h''"
    by blast
  ultimately show ?thesis using hello_heap_read len by blast
qed

end
